theory Spec2Isabelle
  imports Main "HOL-Library.Word"
begin

section \<open>The V2 codec pipeline of zarr: \<^verbatim>\<open>src/zarr/codecs/_v2.py\<close>\<close>

text \<open>
  The file holds two codec stages, \<^verbatim>\<open>V2Compressor\<close> (array to bytes) and
  \<^verbatim>\<open>V2Filters\<close> (array to array). Both work on numpy arrays and call transforms
  that the numcodecs registry resolves from a configuration. numpy and numcodecs are
  libraries outside the repository: the arrays are modelled with what numpy documents
  for the operations the file calls (\<^verbatim>\<open>ravel\<close>, \<open>reshape\<close>, \<open>view\<close>,
  \<open>copy\<close>, \<open>tobytes\<close>, the contiguity flags), and the registry is a parameter.
\<close>

subsection \<open>Arrays as numpy presents them\<close>

type_synonym byte = "8 word"

text \<open>
  A dtype, as numpy's type string spells it: byte order, kind and item size
  (\<^verbatim>\<open><f4\<close> is \<open>\<lparr>byteorder = CHR ''<'', kind = CHR ''f'', itemsize = 4\<rparr>\<close>). The string
  of a dtype determines the dtype, so two dtypes have the same string exactly when they
  are equal. The items of an object dtype (kind \<^verbatim>\<open>O\<close>) are pointers to Python
  objects: numpy refuses to reinterpret such memory, and numcodecs to serialise it.
\<close>

record dtype =
  byteorder :: char
  kind :: char
  itemsize :: nat

definition hasobject :: "dtype \<Rightarrow> bool" where
  "hasobject dt \<longleftrightarrow> kind dt = CHR ''O''"

datatype mem_order = Order_C | Order_F

text \<open>
  An array: dtype, shape and strides (in bytes) as numpy reports them, and the elements
  listed in row-major order of their indices, each as its bytes. A well-formed array has
  one stride per axis, as many elements as the product of its shape, and \<open>itemsize\<close>
  bytes per element.
\<close>

record ndarray =
  dtype :: dtype
  shape :: "nat list"
  strides :: "int list"
  elems :: "byte list list"

definition wf_array :: "ndarray \<Rightarrow> bool" where
  "wf_array a \<longleftrightarrow>
     length (strides a) = length (shape a) \<and>
     length (elems a) = prod_list (shape a) \<and>
     list_all (\<lambda>e. length e = itemsize (dtype a)) (elems a)"

definition arr_size :: "ndarray \<Rightarrow> nat" where
  "arr_size a = prod_list (shape a)"

definition nbytes :: "ndarray \<Rightarrow> nat" where
  "nbytes a = arr_size a * itemsize (dtype a)"

text \<open>The strides numpy gives a fresh array: an axis of length 0 counts as 1.\<close>

fun c_strides :: "nat \<Rightarrow> nat list \<Rightarrow> int list" where
  "c_strides isz [] = []"
| "c_strides isz (d # ds) = int (isz * prod_list (map (max 1) ds)) # c_strides isz ds"

fun f_strides :: "nat \<Rightarrow> nat list \<Rightarrow> int list" where
  "f_strides isz [] = []"
| "f_strides isz (d # ds) = int isz # f_strides (isz * max 1 d) ds"

text \<open>
  The contiguity flags, as numpy computes them from shape and strides: walking the axes
  from the fastest one, every axis of length other than 1 must have the stride of the
  packed layout. An array with an axis of length 0 has both flags.
\<close>

fun is_packed :: "nat \<Rightarrow> (nat \<times> int) list \<Rightarrow> bool" where
  "is_packed sd [] = True"
| "is_packed sd ((d, st) # rest) =
     (if d = 1 then is_packed sd rest else st = int sd \<and> is_packed (sd * d) rest)"

definition c_contiguous :: "ndarray \<Rightarrow> bool" where
  "c_contiguous a \<longleftrightarrow>
     0 \<in> set (shape a) \<or> is_packed (itemsize (dtype a)) (rev (zip (shape a) (strides a)))"

definition f_contiguous :: "ndarray \<Rightarrow> bool" where
  "f_contiguous a \<longleftrightarrow>
     0 \<in> set (shape a) \<or> is_packed (itemsize (dtype a)) (zip (shape a) (strides a))"

text \<open>numpy's \<^verbatim>\<open>ISFORTRAN\<close>, which decides what order \<^verbatim>\<open>'A'\<close> means.\<close>

definition is_fortran :: "ndarray \<Rightarrow> bool" where
  "is_fortran a \<longleftrightarrow> f_contiguous a \<and> \<not> c_contiguous a"

text \<open>
  Positions in the two linearisations of a shape. The element at row-major position
  \<open>j\<close> is at column-major position \<open>c_to_f shp j\<close>, and the element at column-major
  position \<open>k\<close> is at row-major position \<open>f_to_c shp k\<close>.
\<close>

fun f_to_c :: "nat list \<Rightarrow> nat \<Rightarrow> nat" where
  "f_to_c [] k = 0"
| "f_to_c (d # ds) k = (k mod d) * prod_list ds + f_to_c ds (k div d)"

fun c_to_f :: "nat list \<Rightarrow> nat \<Rightarrow> nat" where
  "c_to_f [] j = 0"
| "c_to_f (d # ds) j = j div prod_list ds + d * c_to_f ds (j mod prod_list ds)"

text \<open>The elements of an array of shape \<open>shp\<close> read in the given order.\<close>

definition ravel_elems :: "mem_order \<Rightarrow> nat list \<Rightarrow> 'a list \<Rightarrow> 'a list" where
  "ravel_elems ord shp es =
     (case ord of
        Order_C \<Rightarrow> es
      | Order_F \<Rightarrow> map (\<lambda>k. es ! f_to_c shp k) [0..<prod_list shp])"

text \<open>The row-major listing of the array of shape \<open>shp\<close> that is filled, in the given
  order, from a flat sequence.\<close>

definition unravel_elems :: "mem_order \<Rightarrow> nat list \<Rightarrow> 'a list \<Rightarrow> 'a list" where
  "unravel_elems ord shp xs =
     (case ord of
        Order_C \<Rightarrow> xs
      | Order_F \<Rightarrow> map (\<lambda>j. xs ! c_to_f shp j) [0..<prod_list shp])"

definition order_strides :: "mem_order \<Rightarrow> nat \<Rightarrow> nat list \<Rightarrow> int list" where
  "order_strides ord isz shp =
     (case ord of Order_C \<Rightarrow> c_strides isz shp | Order_F \<Rightarrow> f_strides isz shp)"

datatype error =
    NotImplementedError
  | TypeError
  | ValueError
  | CodecError string

text \<open>\<^verbatim>\<open>a.ravel(order=ord)\<close>: the one-dimensional array of the elements in that order.\<close>

definition ravel :: "ndarray \<Rightarrow> mem_order \<Rightarrow> ndarray" where
  "ravel a ord =
     \<lparr>dtype = dtype a, shape = [arr_size a], strides = [int (itemsize (dtype a))],
      elems = ravel_elems ord (shape a) (elems a)\<rparr>"

text \<open>
  \<^verbatim>\<open>a.reshape(shp, order=ord)\<close>: numpy raises \<^verbatim>\<open>ValueError\<close> when the sizes
  differ; otherwise the elements are read in the given order and placed into the new
  shape in the same order. The strides are those of a fresh array in that order (numpy
  may return a view with other strides; nothing in the file reads them).
\<close>

definition reshape :: "ndarray \<Rightarrow> nat list \<Rightarrow> mem_order \<Rightarrow> error + ndarray" where
  "reshape a shp ord =
     (if prod_list shp \<noteq> arr_size a then Inl ValueError
      else Inr \<lparr>dtype = dtype a, shape = shp,
                strides = order_strides ord (itemsize (dtype a)) shp,
                elems = unravel_elems ord shp (ravel_elems ord (shape a) (elems a))\<rparr>)"

text \<open>A byte sequence cut into pieces of \<open>n\<close> bytes.\<close>

function chunks :: "nat \<Rightarrow> 'a list \<Rightarrow> 'a list list" where
  "chunks n xs = (if n = 0 \<or> xs = [] then [] else take n xs # chunks n (drop n xs))"
  by pat_completeness auto
termination
  by (relation "measure (\<lambda>(n, xs). length xs)") auto

text \<open>
  \<^verbatim>\<open>a.view(dt)\<close>: the same memory under another dtype, by the rules of numpy 1.23
  and later. numpy first checks that no memory holding objects is reinterpreted: when
  the two dtypes differ and either has objects it raises \<^verbatim>\<open>TypeError\<close>, with the
  message \<^verbatim>\<open>Cannot change data-type for object array.\<close> With the same item size
  only the dtype changes.
  Otherwise numpy resizes the last axis: it refuses an array without
  axes, a last axis that is not contiguous (unless its length is 1 or the array is
  empty), a smaller item size that does not divide the old one, and a larger item size
  that does not divide the bytes of the last axis. The bytes are never converted.
\<close>

definition view :: "ndarray \<Rightarrow> dtype \<Rightarrow> error + ndarray" where
  "view a dt =
     (let old = itemsize (dtype a); new = itemsize dt in
      if dtype a \<noteq> dt \<and> (hasobject (dtype a) \<or> hasobject dt) then Inl TypeError
      else if new = old then Inr (a\<lparr>dtype := dt\<rparr>)
      else
        (case (rev (shape a), rev (strides a)) of
           (d # _, st # _) \<Rightarrow>
             if d \<noteq> 1 \<and> arr_size a \<noteq> 0 \<and> st \<noteq> int old then Inl ValueError
             else if new < old \<and> (new = 0 \<or> old mod new \<noteq> 0) then Inl ValueError
             else if old < new \<and> (d * old) mod new \<noteq> 0 then Inl ValueError
             else Inr \<lparr>dtype = dt,
                       shape = butlast (shape a) @ [(d * old) div new],
                       strides = butlast (strides a) @ [int new],
                       elems = chunks new (concat (elems a))\<rparr>
         | _ \<Rightarrow> Inl ValueError))"

text \<open>\<^verbatim>\<open>a.copy(order='A')\<close>: a fresh array, column-major if \<open>a\<close> is Fortran, row-major
  otherwise.\<close>

definition copy_A :: "ndarray \<Rightarrow> ndarray" where
  "copy_A a =
     a\<lparr>strides := order_strides (if is_fortran a then Order_F else Order_C)
                     (itemsize (dtype a)) (shape a)\<rparr>"

text \<open>\<^verbatim>\<open>a.tobytes(order='A')\<close>: the bytes of the elements, in column-major order if
  \<open>a\<close> is Fortran, in row-major order otherwise.\<close>

definition tobytes_A :: "ndarray \<Rightarrow> byte list" where
  "tobytes_A a =
     concat (ravel_elems (if is_fortran a then Order_F else Order_C) (shape a) (elems a))"

text \<open>
  numcodecs' \<^verbatim>\<open>ensure_bytes\<close> is \<^verbatim>\<open>tobytes(order='A')\<close> of the array behind its
  argument; before that it refuses an array whose dtype is \<^verbatim>\<open>object\<close>, raising
  \<^verbatim>\<open>TypeError\<close> with the message \<^verbatim>\<open>object arrays are not supported\<close>.
  \<^verbatim>\<open>ensure_ndarray\<close> returns the array behind its argument. A \<^verbatim>\<open>bytes\<close> object
  is the flat array of its bytes.
\<close>

definition ensure_bytes :: "ndarray \<Rightarrow> error + byte list" where
  "ensure_bytes a = (if hasobject (dtype a) then Inl TypeError else Inr (tobytes_A a))"

definition ensure_ndarray :: "ndarray \<Rightarrow> ndarray" where
  "ensure_ndarray a = a"

subsection \<open>Buffers and the chunk specification\<close>

text \<open>
  Modelled from the spec: \<^verbatim>\<open>zarr.buffer.Buffer\<close> is not under src/. The spec's
  ByteBuffer is an owned, contiguous byte sequence with no shape or dtype; its array
  view is the flat array of its bytes, of the one-byte dtype \<^verbatim>\<open>int8\<close>.
\<close>

type_synonym buffer = "byte list"

definition int8 :: dtype where
  "int8 = \<lparr>byteorder = CHR ''|'', kind = CHR ''i'', itemsize = 1\<rparr>"

definition from_bytes :: "byte list \<Rightarrow> buffer" where
  "from_bytes bs = bs"

definition as_array_like :: "buffer \<Rightarrow> ndarray" where
  "as_array_like b =
     \<lparr>dtype = int8, shape = [length b], strides = [1], elems = map (\<lambda>x. [x]) b\<rparr>"

text \<open>
  Modelled from the spec: \<^verbatim>\<open>zarr.common.ArraySpec\<close> is not under src/. The spec's
  ChunkSpec has a shape, a dtype and an order; \<^verbatim>\<open>NDBuffer\<close> wraps a numpy array, and
  \<^verbatim>\<open>as_numpy_array\<close> and \<^verbatim>\<open>from_numpy_array\<close> pass it through.
\<close>

record ArraySpec =
  spec_shape :: "nat list"
  spec_dtype :: dtype
  spec_order :: mem_order

subsection \<open>Transforms, the registry and the record of calls\<close>

datatype json =
    JNull
  | JBool bool
  | JNum int
  | JStr string
  | JArr "json list"
  | JObj "(string \<times> json) list"

type_synonym config = "(string \<times> json) list"

text \<open>
  A numcodecs codec: \<^verbatim>\<open>encode\<close> and \<^verbatim>\<open>decode\<close>, either of which may raise. The
  registry \<^verbatim>\<open>numcodecs.get_codec\<close> resolves a configuration or raises.
\<close>

record codec =
  encode :: "ndarray \<Rightarrow> error + ndarray"
  decode :: "ndarray \<Rightarrow> error + ndarray"

type_synonym registry = "config \<Rightarrow> error + codec"

text \<open>
  Every resolution and every transform call is recorded, in the order it happens, with
  the configuration and the array passed: a computation returns its value or error
  together with the calls it made.
\<close>

datatype event =
    GetCodec config
  | Encode config ndarray
  | Decode config ndarray

type_synonym 'a result = "(error + 'a) \<times> event list"

definition pure_r :: "'a \<Rightarrow> 'a result" where
  "pure_r x = (Inr x, [])"

definition raise_r :: "error \<Rightarrow> 'a result" where
  "raise_r e = (Inl e, [])"

definition lift_r :: "error + 'a \<Rightarrow> 'a result" where
  "lift_r r = (r, [])"

definition bind_r :: "'a result \<Rightarrow> ('a \<Rightarrow> 'b result) \<Rightarrow> 'b result" where
  "bind_r m f =
     (case m of
        (Inl e, t) \<Rightarrow> (Inl e, t)
      | (Inr x, t) \<Rightarrow> (case f x of (r, t') \<Rightarrow> (r, t @ t')))"

definition get_codec :: "registry \<Rightarrow> config \<Rightarrow> codec result" where
  "get_codec reg cfg = (reg cfg, [GetCodec cfg])"

text \<open>
  Modelled from the spec: \<^verbatim>\<open>zarr.common.to_thread\<close> is not under src/. The spec's
  offload primitive runs a synchronous function on a worker, and the calling coroutine
  awaits its result before the next statement runs: \<^verbatim>\<open>await to_thread(f, x)\<close> is
  the call \<open>f x\<close>, recorded.
\<close>

definition to_thread_encode :: "config \<Rightarrow> codec \<Rightarrow> ndarray \<Rightarrow> ndarray result" where
  "to_thread_encode cfg c x = (encode c x, [Encode cfg x])"

definition to_thread_decode :: "config \<Rightarrow> codec \<Rightarrow> ndarray \<Rightarrow> ndarray result" where
  "to_thread_decode cfg c x = (decode c x, [Decode cfg x])"

subsection \<open>\<^verbatim>\<open>V2Compressor\<close>\<close>

text \<open>Lines 27 to 33: the decompressed array, or the raw one without a compressor.\<close>

definition decompress :: "registry \<Rightarrow> config option \<Rightarrow> buffer \<Rightarrow> ndarray result" where
  "decompress reg compressor chunk_bytes =
     (case compressor of
        Some cfg \<Rightarrow>
          bind_r (get_codec reg cfg) (\<lambda>c.
          bind_r (to_thread_decode cfg c (as_array_like chunk_bytes)) (\<lambda>d.
          pure_r (ensure_ndarray d)))
      | None \<Rightarrow> pure_r (ensure_ndarray (as_array_like chunk_bytes)))"

text \<open>
  \<^verbatim>\<open>str(chunk_numpy_array.dtype) != chunk_spec.dtype\<close> compares the dtype the string
  names with the dtype of the specification: it holds when the two dtypes differ.
\<close>

definition V2Compressor_decode_single ::
    "registry \<Rightarrow> config option \<Rightarrow> buffer option \<Rightarrow> ArraySpec \<Rightarrow> ndarray option result" where
  "V2Compressor_decode_single reg compressor chunk_bytes chunk_spec =
     (case chunk_bytes of
        None \<Rightarrow> pure_r None
      | Some b \<Rightarrow>
          bind_r (decompress reg compressor b) (\<lambda>chunk_numpy_array.
          bind_r (if dtype chunk_numpy_array \<noteq> spec_dtype chunk_spec
                  then lift_r (view chunk_numpy_array (spec_dtype chunk_spec))
                  else pure_r chunk_numpy_array) (\<lambda>chunk_numpy_array.
          pure_r (Some chunk_numpy_array))))"

definition V2Compressor_encode_single ::
    "registry \<Rightarrow> config option \<Rightarrow> ndarray \<Rightarrow> ArraySpec \<Rightarrow> buffer result" where
  "V2Compressor_encode_single reg compressor chunk_array chunk_spec =
     (case compressor of
        Some cfg \<Rightarrow>
          bind_r (get_codec reg cfg) (\<lambda>c.
          bind_r (to_thread_encode cfg c
                    (if \<not> c_contiguous chunk_array \<and> \<not> f_contiguous chunk_array
                     then copy_A chunk_array else chunk_array)) (\<lambda>y.
          bind_r (lift_r (ensure_bytes y)) (\<lambda>encoded_chunk_bytes.
          pure_r (from_bytes encoded_chunk_bytes))))
      | None \<Rightarrow>
          bind_r (lift_r (ensure_bytes chunk_array)) (\<lambda>encoded_chunk_bytes.
          pure_r (from_bytes encoded_chunk_bytes)))"

definition V2Compressor_compute_encoded_size ::
    "config option \<Rightarrow> int \<Rightarrow> ArraySpec \<Rightarrow> error + int" where
  "V2Compressor_compute_encoded_size compressor input_byte_length chunk_spec =
     Inl NotImplementedError"

subsection \<open>\<^verbatim>\<open>V2Filters\<close>\<close>

text \<open>The loop of lines 100 to 102, over the filters in the order given.\<close>

fun encode_loop :: "registry \<Rightarrow> config list \<Rightarrow> ndarray \<Rightarrow> ndarray result" where
  "encode_loop reg [] a = pure_r a"
| "encode_loop reg (filter_metadata # fs) a =
     bind_r (get_codec reg filter_metadata) (\<lambda>c.
     bind_r (to_thread_encode filter_metadata c a) (\<lambda>a'.
     encode_loop reg fs a'))"

text \<open>The loop of lines 80 to 82, over the list it is given (the reversed filters).\<close>

fun decode_loop :: "registry \<Rightarrow> config list \<Rightarrow> ndarray \<Rightarrow> ndarray result" where
  "decode_loop reg [] a = pure_r a"
| "decode_loop reg (filter_metadata # fs) a =
     bind_r (get_codec reg filter_metadata) (\<lambda>c.
     bind_r (to_thread_decode filter_metadata c a) (\<lambda>a'.
     decode_loop reg fs a'))"

text \<open>Lines 77 to 82: the working array after the inverse filters; a filter list that
  is \<^verbatim>\<open>None\<close> is skipped.\<close>

definition decode_filters :: "registry \<Rightarrow> config list option \<Rightarrow> ndarray \<Rightarrow> ndarray result" where
  "decode_filters reg filters chunk_array =
     (case filters of
        None \<Rightarrow> pure_r chunk_array
      | Some fs \<Rightarrow> decode_loop reg (rev fs) chunk_array)"

definition V2Filters_decode_single ::
    "registry \<Rightarrow> config list option \<Rightarrow> ndarray \<Rightarrow> ArraySpec \<Rightarrow> ndarray result" where
  "V2Filters_decode_single reg filters chunk_array chunk_spec =
     bind_r (decode_filters reg filters chunk_array) (\<lambda>chunk_numpy_array.
       if shape chunk_numpy_array \<noteq> spec_shape chunk_spec
       then lift_r (reshape chunk_numpy_array (spec_shape chunk_spec) (spec_order chunk_spec))
       else pure_r chunk_numpy_array)"

text \<open>Iterating a filter list that is \<^verbatim>\<open>None\<close> raises \<^verbatim>\<open>TypeError\<close>.\<close>

definition V2Filters_encode_single ::
    "registry \<Rightarrow> config list option \<Rightarrow> ndarray \<Rightarrow> ArraySpec \<Rightarrow> ndarray result" where
  "V2Filters_encode_single reg filters chunk_array chunk_spec =
     (case filters of
        None \<Rightarrow> raise_r TypeError
      | Some fs \<Rightarrow> encode_loop reg fs (ravel chunk_array (spec_order chunk_spec)))"

definition V2Filters_compute_encoded_size ::
    "config list option \<Rightarrow> int \<Rightarrow> ArraySpec \<Rightarrow> error + int" where
  "V2Filters_compute_encoded_size filters input_byte_length chunk_spec =
     Inl NotImplementedError"

subsection \<open>The two stages in sequence\<close>

text \<open>
  Modelled from the spec: the caller that sequences the stages is not under src/. Encode
  is the filter chain, then the compressor stage; decode is the compressor stage, then
  the filter chain; the sentinel for an absent chunk short-circuits the rest.
\<close>

definition encode_chunk ::
    "registry \<Rightarrow> config list option \<Rightarrow> config option \<Rightarrow> ndarray \<Rightarrow> ArraySpec \<Rightarrow> buffer result" where
  "encode_chunk reg filters compressor chunk spec =
     bind_r (V2Filters_encode_single reg filters chunk spec) (\<lambda>a.
     V2Compressor_encode_single reg compressor a spec)"

definition decode_chunk ::
    "registry \<Rightarrow> config list option \<Rightarrow> config option \<Rightarrow> buffer option \<Rightarrow> ArraySpec
       \<Rightarrow> ndarray option result" where
  "decode_chunk reg filters compressor chunk_bytes spec =
     bind_r (V2Compressor_decode_single reg compressor chunk_bytes spec) (\<lambda>r.
       case r of
         None \<Rightarrow> pure_r None
       | Some a \<Rightarrow>
           bind_r (V2Filters_decode_single reg filters a spec) (\<lambda>x. pure_r (Some x)))"

subsection \<open>Reading the record of calls\<close>

text \<open>The forward calls, and the inverse calls, of a record: which transform, on what.\<close>

fun encode_calls :: "event list \<Rightarrow> (config \<times> ndarray) list" where
  "encode_calls [] = []"
| "encode_calls (Encode f x # t) = (f, x) # encode_calls t"
| "encode_calls (_ # t) = encode_calls t"

fun decode_calls :: "event list \<Rightarrow> (config \<times> ndarray) list" where
  "decode_calls [] = []"
| "decode_calls (Decode f x # t) = (f, x) # decode_calls t"
| "decode_calls (_ # t) = decode_calls t"

text \<open>
  A sequence of calls is chained from \<open>x\<close> to \<open>r\<close> when the first call is on \<open>x\<close>,
  every later call is on what the call before it returned, and the last call returned
  \<open>r\<close>; \<open>dir\<close> is the direction, \<open>encode\<close> or \<open>decode\<close>.
\<close>

fun chained ::
    "registry \<Rightarrow> (codec \<Rightarrow> ndarray \<Rightarrow> error + ndarray) \<Rightarrow> ndarray \<Rightarrow> (config \<times> ndarray) list
       \<Rightarrow> ndarray \<Rightarrow> bool" where
  "chained reg dir x [] r = (r = x)"
| "chained reg dir x ((f, y) # cs) r =
     (y = x \<and>
      (case reg f of
         Inl _ \<Rightarrow> False
       | Inr c \<Rightarrow> (case dir c y of Inl _ \<Rightarrow> False | Inr z \<Rightarrow> chained reg dir z cs r)))"

subsection \<open>Flat arrays and transforms that invert each other\<close>

text \<open>The one-dimensional contiguous array of the given elements.\<close>

definition flat_array :: "dtype \<Rightarrow> byte list list \<Rightarrow> ndarray" where
  "flat_array dt es =
     \<lparr>dtype = dt, shape = [length es], strides = [int (itemsize dt)], elems = es\<rparr>"

definition flat :: "ndarray \<Rightarrow> bool" where
  "flat x \<longleftrightarrow>
     x = flat_array (dtype x) (elems x) \<and>
     list_all (\<lambda>e. length e = itemsize (dtype x)) (elems x)"

text \<open>
  A filter that keeps the element type: on every flat array of dtype \<open>dt\<close> its forward
  transform returns a flat array of dtype \<open>dt\<close>, which its inverse takes back to the
  input.
\<close>

definition filter_ok :: "dtype \<Rightarrow> codec \<Rightarrow> bool" where
  "filter_ok dt c \<longleftrightarrow>
     (\<forall>x. flat x \<and> dtype x = dt \<longrightarrow>
        (\<exists>y. encode c x = Inr y \<and> flat y \<and> dtype y = dt \<and> decode c y = Inr x))"

text \<open>
  A compressor and its inverse: the forward transform accepts every flat array and
  returns something \<^verbatim>\<open>ensure_bytes\<close> accepts, and the inverse, given the bytes that
  were stored, returns a flat array holding the bytes of the input, either as a buffer of
  one-byte items or under the dtype of the input.
\<close>

definition compressor_ok :: "codec \<Rightarrow> bool" where
  "compressor_ok c \<longleftrightarrow>
     (\<forall>x. flat x \<longrightarrow>
        (\<exists>y b d. encode c x = Inr y \<and> ensure_bytes y = Inr b \<and>
               decode c (as_array_like (from_bytes b)) = Inr d \<and>
               flat d \<and>
               (itemsize (dtype d) = 1 \<and> \<not> hasobject (dtype d) \<or> dtype d = dtype x) \<and>
               concat (elems d) = concat (elems x)))"

subsection \<open>Example transforms and chunks\<close>

definition uint8 :: dtype where
  "uint8 = \<lparr>byteorder = CHR ''|'', kind = CHR ''u'', itemsize = 1\<rparr>"

definition int16 :: dtype where
  "int16 = \<lparr>byteorder = CHR ''<'', kind = CHR ''i'', itemsize = 2\<rparr>"

definition float32 :: dtype where
  "float32 = \<lparr>byteorder = CHR ''<'', kind = CHR ''f'', itemsize = 4\<rparr>"

text \<open>A filter that adds 1 to every byte, and one that negates every byte.\<close>

definition add1_codec :: codec where
  "add1_codec =
     \<lparr>encode = (\<lambda>x. Inr (x\<lparr>elems := map (map (\<lambda>b. b + 1)) (elems x)\<rparr>)),
      decode = (\<lambda>x. Inr (x\<lparr>elems := map (map (\<lambda>b. b - 1)) (elems x)\<rparr>))\<rparr>"

definition negate_codec :: codec where
  "negate_codec =
     \<lparr>encode = (\<lambda>x. Inr (x\<lparr>elems := map (map uminus) (elems x)\<rparr>)),
      decode = (\<lambda>x. Inr (x\<lparr>elems := map (map uminus) (elems x)\<rparr>))\<rparr>"

text \<open>
  A filter in the manner of numcodecs' \<^verbatim>\<open>AsType\<close>: little-endian \<^verbatim>\<open>int16\<close> values
  that fit one byte are stored as \<^verbatim>\<open>uint8\<close>, and widened again by the inverse.
\<close>

definition astype_codec :: codec where
  "astype_codec =
     \<lparr>encode = (\<lambda>x.
        if dtype x = int16 \<and> flat x \<and> list_all (\<lambda>e. drop 1 e = [0]) (elems x)
        then Inr (flat_array uint8 (map (take 1) (elems x)))
        else Inl (CodecError ''value out of range'')),
      decode = (\<lambda>y.
        if dtype y = uint8 \<and> flat y
        then Inr (flat_array int16 (map (\<lambda>e. e @ [0]) (elems y)))
        else Inl (CodecError ''unexpected dtype''))\<rparr>"

text \<open>A compressor that stores the bytes behind a one-byte header.\<close>

definition framed_codec :: codec where
  "framed_codec =
     \<lparr>encode = (\<lambda>x. Inr (flat_array uint8 (map (\<lambda>b. [b]) (0x5A # tobytes_A x)))),
      decode = (\<lambda>y.
        case tobytes_A y of
          [] \<Rightarrow> Inl (CodecError ''truncated'')
        | h # rest \<Rightarrow>
            if h = 0x5A then Inr (flat_array uint8 (map (\<lambda>b. [b]) rest))
            else Inl (CodecError ''bad header''))\<rparr>"

definition add1_cfg :: config where
  "add1_cfg = [(''id'', JStr ''add1'')]"

definition negate_cfg :: config where
  "negate_cfg = [(''id'', JStr ''negate'')]"

definition astype_cfg :: config where
  "astype_cfg =
     [(''id'', JStr ''astype''), (''encode_dtype'', JStr ''|u1''),
      (''decode_dtype'', JStr ''<i2'')]"

definition framed_cfg :: config where
  "framed_cfg = [(''id'', JStr ''framed'')]"

definition example_registry :: registry where
  "example_registry cfg =
     (if cfg = add1_cfg then Inr add1_codec
      else if cfg = negate_cfg then Inr negate_codec
      else if cfg = astype_cfg then Inr astype_codec
      else if cfg = framed_cfg then Inr framed_codec
      else Inl ValueError)"

subsection \<open>Example chunks\<close>

definition int8_chunk :: ndarray where
  "int8_chunk =
     \<lparr>dtype = int8, shape = [2, 3], strides = [3, 1],
      elems = [[1], [2], [3], [4], [5], [6]]\<rparr>"

definition int8_spec :: ArraySpec where
  "int8_spec = \<lparr>spec_shape = [2, 3], spec_dtype = int8, spec_order = Order_F\<rparr>"

definition strided_chunk :: ndarray where
  "strided_chunk =
     \<lparr>dtype = int8, shape = [2, 2], strides = [4, 2], elems = [[1], [3], [5], [7]]\<rparr>"

definition int16_chunk :: ndarray where
  "int16_chunk =
     \<lparr>dtype = int16, shape = [3], strides = [2], elems = [[1, 0], [2, 0], [3, 0]]\<rparr>"

definition int16_spec :: ArraySpec where
  "int16_spec = \<lparr>spec_shape = [3], spec_dtype = int16, spec_order = Order_C\<rparr>"

definition float_pair_spec :: ArraySpec where
  "float_pair_spec = \<lparr>spec_shape = [2], spec_dtype = float32, spec_order = Order_C\<rparr>"

definition float_pair_bytes :: "byte list" where
  "float_pair_bytes = [0, 0, 0x80, 0x3F, 0, 0, 0, 0x40]"

definition encoded_int8 :: ndarray where
  "encoded_int8 =
     \<lparr>dtype = int8, shape = [6], strides = [1],
      elems = [[0xFE], [0xFB], [0xFD], [0xFA], [0xFC], [0xF9]]\<rparr>"

definition float_chunk :: ndarray where
  "float_chunk =
     \<lparr>dtype = float32, shape = [4, 4], strides = [16, 4],
      elems =
        [[0, 0, 0, 0], [0, 0, 0x80, 0x3F], [0, 0, 0, 0x40], [0, 0, 0x40, 0x40],
         [0, 0, 0x80, 0x40], [0, 0, 0xA0, 0x40], [0, 0, 0xC0, 0x40], [0, 0, 0xE0, 0x40],
         [0, 0, 0, 0x41], [0, 0, 0x10, 0x41], [0, 0, 0x20, 0x41], [0, 0, 0x30, 0x41],
         [0, 0, 0x40, 0x41], [0, 0, 0x50, 0x41], [0, 0, 0x60, 0x41], [0, 0, 0x70, 0x41]]\<rparr>"

definition float_spec :: ArraySpec where
  "float_spec = \<lparr>spec_shape = [4, 4], spec_dtype = float32, spec_order = Order_C\<rparr>"

definition float_bytes :: "byte list" where
  "float_bytes =
     [0, 0, 0, 0, 0, 0, 0x80, 0x3F, 0, 0, 0, 0x40, 0, 0, 0x40, 0x40,
      0, 0, 0x80, 0x40, 0, 0, 0xA0, 0x40, 0, 0, 0xC0, 0x40, 0, 0, 0xE0, 0x40,
      0, 0, 0, 0x41, 0, 0, 0x10, 0x41, 0, 0, 0x20, 0x41, 0, 0, 0x30, 0x41,
      0, 0, 0x40, 0x41, 0, 0, 0x50, 0x41, 0, 0, 0x60, 0x41, 0, 0, 0x70, 0x41]"

definition float_triple_spec :: ArraySpec where
  "float_triple_spec = \<lparr>spec_shape = [3], spec_dtype = float32, spec_order = Order_C\<rparr>"

definition object_dtype :: dtype where
  "object_dtype = \<lparr>byteorder = CHR ''|'', kind = CHR ''O'', itemsize = 8\<rparr>"

definition object_spec :: ArraySpec where
  "object_spec = \<lparr>spec_shape = [1], spec_dtype = object_dtype, spec_order = Order_C\<rparr>"

section \<open>The monad of recorded calls\<close>

lemma bind_r_Inl: "bind_r (Inl e, t) f = (Inl e, t)"
  by (simp add: bind_r_def)

lemma bind_r_Inr: "bind_r (Inr x, t) f = (fst (f x), t @ snd (f x))"
  by (simp add: bind_r_def split: prod.splits)

lemma bind_r_pure: "bind_r (pure_r x) f = f x"
  by (simp add: bind_r_def pure_r_def split: prod.splits)

section \<open>Index arithmetic, byte pieces, the loops and the examples\<close>

lemma f_to_c_less: "k < prod_list shp \<Longrightarrow> f_to_c shp k < prod_list shp"
proof (induction shp arbitrary: k)
  case Nil
  then show ?case by simp
next
  case (Cons d ds)
  let ?m = "prod_list ds"
  from Cons.prems have lt: "k < d * ?m" by simp
  then have d: "0 < d" by (cases d) auto
  from lt have "k div d < ?m" by (simp add: less_mult_imp_div_less mult.commute)
  then have r: "f_to_c ds (k div d) < ?m" by (rule Cons.IH)
  have "k mod d < d" using d by simp
  then have "Suc (k mod d) \<le> d" by simp
  then have "Suc (k mod d) * ?m \<le> d * ?m" by (rule mult_le_mono1)
  with r show ?case by simp
qed

lemma c_to_f_less: "j < prod_list shp \<Longrightarrow> c_to_f shp j < prod_list shp"
proof (induction shp arbitrary: j)
  case Nil
  then show ?case by simp
next
  case (Cons d ds)
  let ?m = "prod_list ds"
  from Cons.prems have lt: "j < d * ?m" by simp
  then have m: "0 < ?m" by (cases "?m") auto
  then have "c_to_f ds (j mod ?m) < ?m" by (intro Cons.IH) simp
  then have "Suc (c_to_f ds (j mod ?m)) \<le> ?m" by simp
  then have le: "d * Suc (c_to_f ds (j mod ?m)) \<le> d * ?m" by (rule mult_le_mono2)
  from lt have "j div ?m < d" by (simp add: less_mult_imp_div_less)
  with le show ?case by simp
qed

lemma c_to_f_f_to_c: "k < prod_list shp \<Longrightarrow> c_to_f shp (f_to_c shp k) = k"
proof (induction shp arbitrary: k)
  case Nil
  then show ?case by simp
next
  case (Cons d ds)
  let ?m = "prod_list ds"
  from Cons.prems have lt: "k < d * ?m" by simp
  then have d: "0 < d" by (cases d) auto
  from lt have kd: "k div d < ?m" by (simp add: less_mult_imp_div_less mult.commute)
  then have r: "f_to_c ds (k div d) < ?m" by (rule f_to_c_less)
  from kd have ih: "c_to_f ds (f_to_c ds (k div d)) = k div d" by (rule Cons.IH)
  from r ih show ?case by simp
qed

lemma f_to_c_c_to_f: "j < prod_list shp \<Longrightarrow> f_to_c shp (c_to_f shp j) = j"
proof (induction shp arbitrary: j)
  case Nil
  then show ?case by simp
next
  case (Cons d ds)
  let ?m = "prod_list ds"
  from Cons.prems have lt: "j < d * ?m" by simp
  then have m: "0 < ?m" by (cases "?m") auto
  from lt have jd: "j div ?m < d" by (simp add: less_mult_imp_div_less)
  from m have jm: "j mod ?m < ?m" by simp
  then have ih: "f_to_c ds (c_to_f ds (j mod ?m)) = j mod ?m" by (rule Cons.IH)
  from jd ih show ?case by simp
qed

lemma ravel_unravel:
  "length xs = prod_list shp \<Longrightarrow> ravel_elems ord shp (unravel_elems ord shp xs) = xs"
  by (cases ord) (auto simp: ravel_elems_def unravel_elems_def f_to_c_less c_to_f_f_to_c
      intro!: nth_equalityI)

lemma unravel_ravel:
  "length es = prod_list shp \<Longrightarrow> unravel_elems ord shp (ravel_elems ord shp es) = es"
  by (cases ord) (auto simp: ravel_elems_def unravel_elems_def c_to_f_less f_to_c_c_to_f
      intro!: nth_equalityI)

lemma length_ravel_elems:
  "length es = prod_list shp \<Longrightarrow> length (ravel_elems ord shp es) = prod_list shp"
  by (cases ord) (simp_all add: ravel_elems_def)

lemma ravel_elems_flat: "length es = n \<Longrightarrow> ravel_elems ord [n] es = es"
  by (cases ord) (auto simp: ravel_elems_def intro!: nth_equalityI)

lemma unravel_elems_flat: "length es = n \<Longrightarrow> unravel_elems ord [n] es = es"
  by (cases ord) (auto simp: unravel_elems_def intro!: nth_equalityI)

declare chunks.simps [simp del]

lemma concat_chunks: "0 < n \<Longrightarrow> concat (chunks n xs) = xs"
proof (induction n xs rule: chunks.induct)
  case (1 n xs)
  show ?case
  proof (cases "xs = []")
    case True
    then show ?thesis by (subst chunks.simps) simp
  next
    case False
    with 1 show ?thesis by (subst chunks.simps) simp
  qed
qed

lemma chunks_concat:
  "0 < n \<Longrightarrow> list_all (\<lambda>e. length e = n) es \<Longrightarrow> chunks n (concat es) = es"
proof (induction es)
  case Nil
  then show ?case by (subst chunks.simps) simp
next
  case (Cons e es)
  then have "e \<noteq> []" by auto
  with Cons show ?case by (subst chunks.simps) simp
qed

lemma concat_singletons: "concat (map (\<lambda>x. [x]) bs) = bs"
  by (induction bs) simp_all

lemma length_concat_uniform:
  "list_all (\<lambda>e. length e = n) es \<Longrightarrow> length (concat es) = length es * n"
  by (induction es) simp_all

lemma uniform_concat_eq:
  assumes "0 < n" "list_all (\<lambda>e. length e = n) es" "list_all (\<lambda>e. length e = n) es'"
    "concat es = concat es'"
  shows "es = es'"
proof -
  have "chunks n (concat es) = es" by (rule chunks_concat [OF assms(1,2)])
  moreover have "chunks n (concat es') = es'" by (rule chunks_concat [OF assms(1,3)])
  ultimately show ?thesis using assms(4) by metis
qed

lemma view_result:
  "view d dt = Inr r \<Longrightarrow> dtype r = dt \<and> concat (elems r) = concat (elems d)"
  by (auto simp: view_def Let_def concat_chunks split: if_splits list.splits prod.splits)

lemma view_object:
  "dtype d \<noteq> dt \<Longrightarrow> hasobject (dtype d) \<or> hasobject dt \<Longrightarrow> view d dt = Inl TypeError"
  by (simp add: view_def Let_def)

lemma view_error:
  "view d dt = Inl e \<Longrightarrow>
   e = (if dtype d \<noteq> dt \<and> (hasobject (dtype d) \<or> hasobject dt) then TypeError else ValueError)"
  by (auto simp: view_def Let_def split: if_splits list.splits prod.splits)



lemma encode_loop_Cons:
  "encode_loop reg (f # fs) x =
     (case reg f of
        Inl e \<Rightarrow> (Inl e, [GetCodec f])
      | Inr c \<Rightarrow>
          (case encode c x of
             Inl e \<Rightarrow> (Inl e, [GetCodec f, Encode f x])
           | Inr y \<Rightarrow> (fst (encode_loop reg fs y),
                       GetCodec f # Encode f x # snd (encode_loop reg fs y))))"
  by (simp add: bind_r_def get_codec_def to_thread_encode_def split: sum.splits prod.splits)

lemma decode_loop_Cons:
  "decode_loop reg (f # fs) x =
     (case reg f of
        Inl e \<Rightarrow> (Inl e, [GetCodec f])
      | Inr c \<Rightarrow>
          (case decode c x of
             Inl e \<Rightarrow> (Inl e, [GetCodec f, Decode f x])
           | Inr y \<Rightarrow> (fst (decode_loop reg fs y),
                       GetCodec f # Decode f x # snd (decode_loop reg fs y))))"
  by (simp add: bind_r_def get_codec_def to_thread_decode_def split: sum.splits prod.splits)

declare encode_loop.simps(2) [simp del] decode_loop.simps(2) [simp del]

lemma encode_loop_prefix:
  "map fst (encode_calls (snd (encode_loop reg fs x))) =
     take (length (encode_calls (snd (encode_loop reg fs x)))) fs"
proof (induction fs arbitrary: x)
  case Nil
  show ?case by (simp add: pure_r_def)
next
  case (Cons f fs)
  show ?case
    by (simp add: encode_loop_Cons Cons.IH split: sum.splits)
qed

lemma decode_loop_prefix:
  "map fst (decode_calls (snd (decode_loop reg fs x))) =
     take (length (decode_calls (snd (decode_loop reg fs x)))) fs"
proof (induction fs arbitrary: x)
  case Nil
  show ?case by (simp add: pure_r_def)
next
  case (Cons f fs)
  show ?case
    by (simp add: decode_loop_Cons Cons.IH split: sum.splits)
qed

lemma encode_loop_success:
  "encode_loop reg fs x = (Inr r, t) \<Longrightarrow>
     map fst (encode_calls t) = fs \<and> chained reg encode x (encode_calls t) r \<and>
     decode_calls t = []"
proof (induction fs arbitrary: x t)
  case Nil
  then show ?case by (simp add: pure_r_def)
next
  case (Cons f fs)
  from Cons.prems obtain c where c: "reg f = Inr c"
    by (cases "reg f") (auto simp: encode_loop_Cons)
  with Cons.prems obtain y where y: "encode c x = Inr y"
    by (cases "encode c x") (auto simp: encode_loop_Cons)
  obtain r' t' where rest: "encode_loop reg fs y = (r', t')"
    by (cases "encode_loop reg fs y")
  with Cons.prems c y have "encode_loop reg fs y = (Inr r, t')"
    and t: "t = GetCodec f # Encode f x # t'"
    by (auto simp: encode_loop_Cons)
  from Cons.IH [OF this(1)] c y t show ?case by simp
qed

lemma decode_loop_success:
  "decode_loop reg fs x = (Inr r, t) \<Longrightarrow>
     map fst (decode_calls t) = fs \<and> chained reg decode x (decode_calls t) r \<and>
     encode_calls t = []"
proof (induction fs arbitrary: x t)
  case Nil
  then show ?case by (simp add: pure_r_def)
next
  case (Cons f fs)
  from Cons.prems obtain c where c: "reg f = Inr c"
    by (cases "reg f") (auto simp: decode_loop_Cons)
  with Cons.prems obtain y where y: "decode c x = Inr y"
    by (cases "decode c x") (auto simp: decode_loop_Cons)
  obtain r' t' where rest: "decode_loop reg fs y = (r', t')"
    by (cases "decode_loop reg fs y")
  with Cons.prems c y have "decode_loop reg fs y = (Inr r, t')"
    and t: "t = GetCodec f # Decode f x # t'"
    by (auto simp: decode_loop_Cons)
  from Cons.IH [OF this(1)] c y t show ?case by simp
qed

lemma snd_decode_single: 
  "snd (V2Filters_decode_single reg filters a s) = snd (decode_filters reg filters a)"
  by (cases "decode_filters reg filters a")
     (auto simp: V2Filters_decode_single_def bind_r_def lift_r_def pure_r_def split: sum.splits)

lemma decode_single_after_filters:
  "decode_filters reg filters a = (Inr w, t) \<Longrightarrow>
   V2Filters_decode_single reg filters a s =
     (if shape w \<noteq> spec_shape s then reshape w (spec_shape s) (spec_order s) else Inr w, t)"
  by (simp add: V2Filters_decode_single_def bind_r_def lift_r_def pure_r_def)

lemma reshape_result:
  assumes "prod_list shp = arr_size w"
  shows "\<exists>r. reshape w shp ord = Inr r \<and> shape r = shp \<and> dtype r = dtype w \<and>
           ravel_elems ord (shape r) (elems r) = ravel_elems ord (shape w) (elems w)"
proof (cases ord)
  case Order_C
  with assms show ?thesis by (simp add: reshape_def ravel_elems_def unravel_elems_def)
next
  case Order_F
  have "length (ravel_elems Order_F (shape w) (elems w)) = prod_list shp"
    using assms by (simp add: ravel_elems_def arr_size_def)
  then have "ravel_elems Order_F shp (unravel_elems Order_F shp (ravel_elems Order_F (shape w) (elems w)))
      = ravel_elems Order_F (shape w) (elems w)"
    by (rule ravel_unravel)
  with assms Order_F show ?thesis by (simp add: reshape_def)
qed

lemma reshape_error: "reshape w shp ord = Inl e \<Longrightarrow> e = ValueError \<and> prod_list shp \<noteq> arr_size w"
  by (auto simp: reshape_def split: if_splits)

lemma decode_single_after_decompress:
  "decompress reg compressor b = (Inr d, t) \<Longrightarrow>
   V2Compressor_decode_single reg compressor (Some b) s =
     (if dtype d \<noteq> spec_dtype s then map_sum id Some (view d (spec_dtype s)) else Inr (Some d), t)"
  by (simp add: V2Compressor_decode_single_def bind_r_def lift_r_def pure_r_def
      split: sum.splits)

lemma flat_array_sel [simp]:
  "dtype (flat_array dt es) = dt" "shape (flat_array dt es) = [length es]"
  "strides (flat_array dt es) = [int (itemsize dt)]" "elems (flat_array dt es) = es"
  by (simp_all add: flat_array_def)

lemma flat_flat_array:
  "list_all (\<lambda>e. length e = itemsize dt) es \<Longrightarrow> flat (flat_array dt es)"
  by (simp add: flat_def)

lemma flat_shape: "flat x \<Longrightarrow> shape x = [length (elems x)]"
  by (metis flat_def flat_array_sel(2))

lemma flat_strides: "flat x \<Longrightarrow> strides x = [int (itemsize (dtype x))]"
  by (metis flat_def flat_array_sel(3))

lemma flat_uniform: "flat x \<Longrightarrow> list_all (\<lambda>e. length e = itemsize (dtype x)) (elems x)"
  by (simp add: flat_def)

lemma flat_c_contiguous: "flat x \<Longrightarrow> c_contiguous x"
  by (simp add: c_contiguous_def flat_shape flat_strides)

lemma flat_not_fortran: "flat x \<Longrightarrow> \<not> is_fortran x"
  by (simp add: is_fortran_def flat_c_contiguous)

lemma flat_tobytes: "flat x \<Longrightarrow> tobytes_A x = concat (elems x)"
  by (simp add: tobytes_A_def flat_not_fortran ravel_elems_def)

lemma flat_eqI:
  assumes "flat x" "flat y" "dtype x = dtype y" "elems x = elems y"
  shows "x = y"
proof -
  have "x = flat_array (dtype x) (elems x)" using assms(1) by (simp add: flat_def)
  also have "\<dots> = flat_array (dtype y) (elems y)" using assms(3,4) by simp
  also have "\<dots> = y" using assms(2) by (simp add: flat_def)
  finally show ?thesis .
qed

lemma ravel_elems_uniform:
  assumes "length es = prod_list shp" "list_all P es"
  shows "list_all P (ravel_elems ord shp es)"
proof (cases ord)
  case Order_C
  with assms show ?thesis by (simp add: ravel_elems_def)
next
  case Order_F
  have "P (es ! f_to_c shp k)" if "k < prod_list shp" for k
    using assms that by (simp add: f_to_c_less list_all_length)
  with Order_F show ?thesis by (simp add: ravel_elems_def list_all_iff)
qed

lemma ravel_eq_flat_array:
  "wf_array a \<Longrightarrow>
   ravel a ord = flat_array (dtype a) (ravel_elems ord (shape a) (elems a))"
  by (simp add: ravel_def flat_array_def wf_array_def arr_size_def length_ravel_elems)

lemma flat_ravel: "wf_array a \<Longrightarrow> flat (ravel a ord)"
  by (simp add: ravel_eq_flat_array flat_flat_array wf_array_def ravel_elems_uniform)

lemma dtype_ravel [simp]: "dtype (ravel a ord) = dtype a"
  by (simp add: ravel_def)

lemma is_packed_append:
  "is_packed sd (xs @ ys) \<longleftrightarrow> is_packed sd xs \<and> is_packed (sd * prod_list (map fst xs)) ys"
  by (induction sd xs rule: is_packed.induct) (auto simp: mult.assoc)

lemma length_c_strides [simp]: "length (c_strides isz shp) = length shp"
  by (induction shp) simp_all

lemma length_f_strides [simp]: "length (f_strides isz shp) = length shp"
  by (induction shp arbitrary: isz) simp_all

lemma max1_pos: "d \<noteq> 0 \<Longrightarrow> max 1 d = (d::nat)"
  by (cases d) simp_all

lemma prod_list_max1:
  "0 \<notin> set shp \<Longrightarrow> prod_list (map (max 1) shp) = prod_list (shp::nat list)"
proof (induction shp)
  case Nil
  show ?case by simp
next
  case (Cons d ds)
  then have "max 1 d = d" and "prod_list (map (max 1) ds) = prod_list ds"
    by (simp_all add: max1_pos del: One_nat_def)
  then show ?case by (simp del: One_nat_def)
qed

lemma prod_list_fst_rev_zip:
  "length ys = length xs \<Longrightarrow> prod_list (map fst (rev (zip xs ys))) = prod_list (xs::nat list)"
  by (simp add: rev_map [symmetric] prod_list.rev)

lemma packed_c_strides:
  "0 \<notin> set shp \<Longrightarrow> is_packed isz (rev (zip shp (c_strides isz shp)))"
proof (induction shp)
  case Nil
  show ?case by simp
next
  case (Cons d ds)
  then have ih: "is_packed isz (rev (zip ds (c_strides isz ds)))"
    and p: "prod_list (map (max 1) ds) = prod_list ds"
    by (simp_all add: prod_list_max1 del: One_nat_def)
  have q: "prod_list (map fst (rev (zip ds (c_strides isz ds)))) = prod_list ds"
    by (rule prod_list_fst_rev_zip) simp
  show ?case
    by (simp add: is_packed_append ih p q del: One_nat_def)
qed

lemma packed_f_strides:
  "0 \<notin> set shp \<Longrightarrow> is_packed isz (zip shp (f_strides isz shp))"
proof (induction shp arbitrary: isz)
  case Nil
  show ?case by simp
next
  case (Cons d ds)
  then have m: "max 1 d = d" and ih: "\<And>k. is_packed k (zip ds (f_strides k ds))"
    by (simp_all add: max1_pos del: One_nat_def)
  show ?case
    by (simp add: m ih del: One_nat_def)
qed

lemma copy_A_sel [simp]:
  "dtype (copy_A a) = dtype a" "shape (copy_A a) = shape a" "elems (copy_A a) = elems a"
  by (simp_all add: copy_A_def)

lemma copy_A_c_contiguous: "\<not> is_fortran a \<Longrightarrow> c_contiguous (copy_A a)"
  by (cases "0 \<in> set (shape a)")
     (simp_all add: c_contiguous_def copy_A_def order_strides_def packed_c_strides)

lemma copy_A_f_contiguous: "is_fortran a \<Longrightarrow> f_contiguous (copy_A a)"
  by (cases "0 \<in> set (shape a)")
     (simp_all add: f_contiguous_def copy_A_def order_strides_def packed_f_strides)

lemma copy_A_contiguous: "c_contiguous (copy_A a) \<or> f_contiguous (copy_A a)"
  using copy_A_c_contiguous copy_A_f_contiguous by blast

lemma view_flat_bytes:
  assumes d: "flat d" "itemsize (dtype d) = 1"
    and es: "list_all (\<lambda>e. length e = itemsize dt) es" "0 < itemsize dt"
    and eq: "concat (elems d) = concat es"
    and obj: "\<not> hasobject (dtype d)" "\<not> hasobject dt"
  shows "view d dt = Inr (flat_array dt es)"
proof -
  have u1: "list_all (\<lambda>e. length e = 1) (elems d)"
    using flat_uniform [OF d(1)] d(2) by simp
  have len: "length (elems d) = length es * itemsize dt"
    using length_concat_uniform [OF u1] length_concat_uniform [OF es(1)] eq by simp
  show ?thesis
  proof (cases "itemsize dt = 1")
    case True
    then have "list_all (\<lambda>e. length e = 1) es" using es(1) by simp
    with u1 eq have "elems d = es" by (intro uniform_concat_eq [of 1]) simp_all
    moreover have "d = flat_array (dtype d) (elems d)" using d(1) by (simp add: flat_def)
    ultimately have "d\<lparr>dtype := dt\<rparr> = flat_array dt es"
      by (metis (no_types, lifting) True d(2) flat_array_def ndarray.surjective
          ndarray.update_convs(1) flat_array_sel)
    with True d(2) obj show ?thesis by (simp add: view_def)
  next
    case False
    with es(2) have gt: "1 < itemsize dt" by simp
    have ch: "chunks (itemsize dt) (concat (elems d)) = es"
      unfolding eq using es by (simp add: chunks_concat)
    from gt d len ch obj show ?thesis
      by (simp add: view_def flat_shape flat_strides arr_size_def flat_array_def)
  qed
qed

lemma as_array_like_flat_array: "as_array_like b = flat_array int8 (map (\<lambda>x. [x]) b)"
  by (simp add: as_array_like_def flat_array_def int8_def)

lemma flat_as_array_like: "flat (as_array_like b)"
  by (simp add: as_array_like_flat_array flat_flat_array int8_def list_all_iff)

lemma as_array_like_sel [simp]:
  "dtype (as_array_like b) = int8" "concat (elems (as_array_like b)) = b"
  by (simp_all add: as_array_like_def concat_singletons)

lemma hasobject_int8 [simp]: "\<not> hasobject int8"
  by (simp add: hasobject_def int8_def)

lemma relabel_flat:
  assumes d: "flat d" "itemsize (dtype d) = 1 \<and> \<not> hasobject (dtype d) \<or> dtype d = dtype x"
    and x: "flat x" "0 < itemsize (dtype x)" "\<not> hasobject (dtype x)"
    and eq: "concat (elems d) = concat (elems x)"
  shows "(if dtype d \<noteq> dtype x then view d (dtype x) else Inr d) = Inr x"
proof (cases "dtype d = dtype x")
  case True
  from flat_uniform [OF d(1)] flat_uniform [OF x(1)] True x(2) eq
  have "elems d = elems x" by (intro uniform_concat_eq [of "itemsize (dtype x)"]) simp_all
  with d(1) x(1) True have "d = x" by (intro flat_eqI)
  with True show ?thesis by simp
next
  case False
  with d(2) have "itemsize (dtype d) = 1" "\<not> hasobject (dtype d)" by simp_all
  with d(1) have "view d (dtype x) = Inr (flat_array (dtype x) (elems x))"
    using flat_uniform [OF x(1)] x(2) eq x(3) by (intro view_flat_bytes)
  also have "flat_array (dtype x) (elems x) = x" using x(1) by (simp add: flat_def)
  finally show ?thesis using False by simp
qed

lemma decompress_None: "decompress reg None b = (Inr (as_array_like b), [])"
  by (simp add: decompress_def pure_r_def ensure_ndarray_def)

lemma decompress_Some:
  "reg cfg = Inr c \<Longrightarrow> decode c (as_array_like b) = Inr d \<Longrightarrow>
   decompress reg (Some cfg) b = (Inr d, [GetCodec cfg, Decode cfg (as_array_like b)])"
  by (simp add: decompress_def pure_r_def ensure_ndarray_def bind_r_def get_codec_def
      to_thread_decode_def)

lemma compress_roundtrip:
  assumes x: "flat x" "dtype x = spec_dtype s" "0 < itemsize (spec_dtype s)"
      "\<not> hasobject (spec_dtype s)"
    and comp: "\<forall>cfg. compressor = Some cfg \<longrightarrow> (\<exists>c. reg cfg = Inr c \<and> compressor_ok c)"
  shows "\<exists>b. fst (V2Compressor_encode_single reg compressor x s) = Inr b \<and>
             fst (V2Compressor_decode_single reg compressor (Some b) s) = Inr (Some x)"
proof (cases compressor)
  case None
  have enc: "V2Compressor_encode_single reg None x s = (Inr (concat (elems x)), [])"
    using x by (simp add: V2Compressor_encode_single_def pure_r_def from_bytes_def
        ensure_bytes_def flat_tobytes lift_r_def bind_r_def)
  have "(if dtype (as_array_like (concat (elems x))) \<noteq> dtype x
         then view (as_array_like (concat (elems x))) (dtype x)
         else Inr (as_array_like (concat (elems x)))) = Inr x"
    using x by (intro relabel_flat flat_as_array_like) (simp_all add: int8_def hasobject_def)
  then have "V2Compressor_decode_single reg None (Some (concat (elems x))) s = (Inr (Some x), [])"
    using x(2)
    by (simp add: decode_single_after_decompress [OF decompress_None] split: if_splits)
  with enc None show ?thesis by simp
next
  case (Some cfg)
  with comp obtain c where c: "reg cfg = Inr c" "compressor_ok c" by blast
  from c(2) x(1) obtain y bs d where y: "encode c x = Inr y" "ensure_bytes y = Inr bs"
    and d: "decode c (as_array_like (from_bytes bs)) = Inr d" "flat d"
      "itemsize (dtype d) = 1 \<and> \<not> hasobject (dtype d) \<or> dtype d = dtype x"
      "concat (elems d) = concat (elems x)"
    unfolding compressor_ok_def by blast
  have enc: "fst (V2Compressor_encode_single reg (Some cfg) x s) = Inr (from_bytes bs)"
    using c(1) y flat_c_contiguous [OF x(1)]
    by (simp add: V2Compressor_encode_single_def bind_r_def get_codec_def to_thread_encode_def
        pure_r_def lift_r_def)
  have "(if dtype d \<noteq> dtype x then view d (dtype x) else Inr d) = Inr x"
    using d x by (intro relabel_flat) simp_all
  moreover have dc: "decompress reg (Some cfg) (from_bytes bs) =
      (Inr d, [GetCodec cfg, Decode cfg (as_array_like (from_bytes bs))])"
    using c(1) d(1) by (simp add: decompress_Some)
  ultimately have "fst (V2Compressor_decode_single reg (Some cfg)
      (Some (from_bytes bs)) s) = Inr (Some x)"
    using x(2)
    by (simp add: decode_single_after_decompress [OF dc] split: if_splits)
  with enc Some show ?thesis by blast
qed

lemma decode_loop_append:
  "fst (decode_loop reg (fs @ gs) a) =
     (case fst (decode_loop reg fs a) of
        Inl e \<Rightarrow> Inl e
      | Inr w \<Rightarrow> fst (decode_loop reg gs w))"
proof (induction fs arbitrary: a)
  case Nil
  show ?case by (simp add: pure_r_def)
next
  case (Cons f fs)
  show ?case by (simp add: decode_loop_Cons Cons.IH split: sum.splits)
qed

lemma chain_roundtrip:
  assumes "flat x" "dtype x = dt"
    and "\<forall>f \<in> set fs. \<exists>c. reg f = Inr c \<and> filter_ok dt c"
  shows "\<exists>y. fst (encode_loop reg fs x) = Inr y \<and> flat y \<and> dtype y = dt \<and>
             fst (decode_loop reg (rev fs) y) = Inr x"
  using assms
proof (induction fs arbitrary: x)
  case Nil
  then show ?case by (simp add: pure_r_def)
next
  case (Cons f fs)
  from Cons.prems(3) obtain c where c: "reg f = Inr c" "filter_ok dt c" by auto
  from c(2) Cons.prems(1,2) obtain x' where x': "encode c x = Inr x'" "flat x'" "dtype x' = dt"
    "decode c x' = Inr x"
    unfolding filter_ok_def by blast
  from Cons.prems(3) have "\<forall>f \<in> set fs. \<exists>c. reg f = Inr c \<and> filter_ok dt c" by simp
  from Cons.IH [OF x'(2,3) this] obtain y where y: "fst (encode_loop reg fs x') = Inr y"
    "flat y" "dtype y = dt" "fst (decode_loop reg (rev fs) y) = Inr x'"
    by blast
  have "fst (encode_loop reg (f # fs) x) = Inr y"
    using c(1) x'(1) y(1) by (simp add: encode_loop_Cons)
  moreover have "fst (decode_loop reg (rev (f # fs)) y) = Inr x"
    using c(1) x'(4) y(4) by (simp add: decode_loop_append decode_loop_Cons pure_r_def)
  ultimately show ?case using y(2,3) by blast
qed

lemma reshape_ravel:
  assumes "wf_array a"
  shows "\<exists>r. (if shape (ravel a ord) \<noteq> shape a then reshape (ravel a ord) (shape a) ord
              else Inr (ravel a ord)) = Inr r \<and>
             dtype r = dtype a \<and> shape r = shape a \<and> elems r = elems a"
proof -
  from assms have len: "length (elems a) = prod_list (shape a)" by (simp add: wf_array_def)
  let ?fl = "ravel_elems ord (shape a) (elems a)"
  have lfl: "length ?fl = prod_list (shape a)" using len by (rule length_ravel_elems)
  show ?thesis
  proof (cases "shape (ravel a ord) = shape a")
    case True
    then have "shape a = [prod_list (shape a)]" by (simp add: ravel_def arr_size_def)
    then have "?fl = elems a" using len by (metis ravel_elems_flat)
    with True show ?thesis by (simp add: ravel_def)
  next
    case False
    have "ravel_elems ord [prod_list (shape a)] ?fl = ?fl" using lfl by (rule ravel_elems_flat)
    then have "unravel_elems ord (shape a) (ravel_elems ord (shape (ravel a ord)) (elems (ravel a ord)))
        = elems a"
      using len by (simp add: ravel_def arr_size_def unravel_ravel)
    with False show ?thesis by (simp add: reshape_def ravel_def arr_size_def)
  qed
qed

lemma flat_map_elems:
  assumes "flat x" "\<And>e. length (g e) = length e"
  shows "flat (x\<lparr>elems := map g (elems x)\<rparr>)"
proof -
  have "x\<lparr>elems := map g (elems x)\<rparr> = flat_array (dtype x) (map g (elems x))"
    using flat_shape [OF assms(1)] flat_strides [OF assms(1)]
    by (intro ndarray.equality) simp_all
  moreover have "list_all (\<lambda>e. length e = itemsize (dtype x)) (map g (elems x))"
    using flat_uniform [OF assms(1)] assms(2) by (simp add: list_all_iff)
  ultimately show ?thesis by (simp add: flat_def)
qed

lemma add1_filter_ok: "filter_ok dt add1_codec"
proof -
  have "flat (x\<lparr>elems := map (map (\<lambda>b. b + 1)) (elems x)\<rparr>)" if "flat x" for x
    using that by (rule flat_map_elems) simp
  then show ?thesis
    by (simp add: filter_ok_def add1_codec_def o_def)
qed

lemma negate_filter_ok: "filter_ok dt negate_codec"
proof -
  have "flat (x\<lparr>elems := map (map uminus) (elems x)\<rparr>)" if "flat x" for x
    using that by (rule flat_map_elems) simp
  then show ?thesis
    by (simp add: filter_ok_def negate_codec_def o_def)
qed

lemma framed_compressor_ok: "compressor_ok framed_codec"
proof -
  have "tobytes_A (as_array_like (tobytes_A (flat_array uint8 (map (\<lambda>b. [b]) (0x5A # bs)))))
      = 0x5A # bs" for bs
  proof -
    have "flat (flat_array uint8 (map (\<lambda>b. [b]) (0x5A # bs)))"
      by (intro flat_flat_array) (simp add: uint8_def list_all_iff)
    then have "tobytes_A (flat_array uint8 (map (\<lambda>b. [b]) (0x5A # bs))) = 0x5A # bs"
      by (simp add: flat_tobytes concat_singletons del: list.map)
    then show ?thesis by (simp add: flat_tobytes [OF flat_as_array_like])
  qed
  moreover have "flat (flat_array uint8 (map (\<lambda>b. [b]) bs))" for bs
    by (intro flat_flat_array) (simp add: uint8_def list_all_iff)
  ultimately show ?thesis
    by (simp add: compressor_ok_def framed_codec_def from_bytes_def ensure_bytes_def
        concat_singletons flat_tobytes uint8_def hasobject_def del: list.map)
qed

lemma astype_codec_inverse:
  assumes "encode astype_codec x = Inr y"
  shows "decode astype_codec y = Inr x"
proof -
  from assms have x: "dtype x = int16" "flat x" "list_all (\<lambda>e. drop 1 e = [0]) (elems x)"
    and y: "y = flat_array uint8 (map (take 1) (elems x))"
    by (auto simp: astype_codec_def split: if_splits)
  have u: "list_all (\<lambda>e. length e = 2) (elems x)"
    using flat_uniform [OF x(2)] x(1) by (simp add: int16_def)
  have fy: "flat y" unfolding y
    using u by (intro flat_flat_array) (auto simp: uint8_def list_all_iff)
  have "take 1 e @ [0] = e" if "e \<in> set (elems x)" for e
  proof -
    from that x(3) have "drop 1 e = [0]" by (simp add: list_all_iff)
    then show ?thesis by (metis append_take_drop_id)
  qed
  then have "map (\<lambda>e. e @ [0]) (map (take 1) (elems x)) = elems x"
    by (simp add: map_idI)
  then have "flat_array int16 (map (\<lambda>e. e @ [0]) (elems y)) = x"
    using x(1,2) by (simp add: y flat_def)
  with fy show ?thesis by (simp add: astype_codec_def y)
qed

lemma fst_bind_r: "fst m = Inr x \<Longrightarrow> fst (bind_r m f) = fst (f x)"
  by (cases m) (simp add: bind_r_def split: prod.splits)

lemma decode_raw:
  assumes "flat x" "dtype x = spec_dtype s" "0 < itemsize (spec_dtype s)"
    "\<not> hasobject (spec_dtype s)"
  shows "V2Compressor_decode_single reg None (Some (concat (elems x))) s = (Inr (Some x), [])"
proof -
  have "(if dtype (as_array_like (concat (elems x))) \<noteq> dtype x
         then view (as_array_like (concat (elems x))) (dtype x)
         else Inr (as_array_like (concat (elems x)))) = Inr x"
    using assms by (intro relabel_flat flat_as_array_like) (simp_all add: int8_def hasobject_def)
  then show ?thesis
    using assms(2)
    by (simp add: decode_single_after_decompress [OF decompress_None] split: if_splits)
qed

lemma decode_filters_fst:
  "fst (decode_filters reg filters a) = Inr w \<Longrightarrow>
   fst (V2Filters_decode_single reg filters a s) =
     (if shape w \<noteq> spec_shape s then reshape w (spec_shape s) (spec_order s) else Inr w)"
  by (cases "decode_filters reg filters a") (simp add: decode_single_after_filters)





lemmas stage_defs =
  V2Filters_encode_single_def V2Filters_decode_single_def V2Compressor_encode_single_def
  V2Compressor_decode_single_def decompress_def decode_filters_def encode_chunk_def
  decode_chunk_def encode_loop.simps(2) decode_loop.simps(2) bind_r_def pure_r_def lift_r_def
  raise_r_def get_codec_def to_thread_encode_def to_thread_decode_def

lemmas numpy_defs =
  ravel_def reshape_def view_def ravel_elems_def unravel_elems_def arr_size_def nbytes_def
  as_array_like_def from_bytes_def ensure_bytes_def ensure_ndarray_def tobytes_A_def
  is_fortran_def c_contiguous_def f_contiguous_def copy_A_def order_strides_def wf_array_def
  flat_def flat_array_def hasobject_def chunks.simps upt_rec

lemmas example_defs =
  example_registry_def add1_cfg_def negate_cfg_def astype_cfg_def framed_cfg_def
  add1_codec_def negate_codec_def astype_codec_def framed_codec_def
  int8_def uint8_def int16_def float32_def
  int8_chunk_def int8_spec_def strided_chunk_def int16_chunk_def int16_spec_def
  float_pair_spec_def float_pair_bytes_def encoded_int8_def float_chunk_def float_spec_def
  float_bytes_def float_triple_spec_def object_dtype_def object_spec_def

section \<open>Properties\<close>

text \<open>
  C1. The round trip fails on a filter that changes the item size. A filter in the manner
  of \<^verbatim>\<open>AsType\<close> stores \<^verbatim>\<open>int16\<close> values as \<^verbatim>\<open>uint8\<close>; its two transforms
  invert each other (\<open>astype_codec_inverse\<close>). A chunk of three \<^verbatim>\<open>int16\<close> values
  encodes to three bytes; on decode, \<^verbatim>\<open>V2Compressor.decode_single\<close> relabels the raw
  bytes as the dtype of the specification before any inverse filter has run, and three
  bytes are not a whole number of \<^verbatim>\<open>int16\<close> items: \<^verbatim>\<open>view\<close> raises
  \<^verbatim>\<open>ValueError\<close>. (The shape is reconciled after the inverse filters, in
  \<^verbatim>\<open>V2Filters.decode_single\<close>; the dtype before them.)
\<close>

theorem pipeline_roundtrip_failure:
  "wf_array int16_chunk \<and> shape int16_chunk = spec_shape int16_spec \<and>
   dtype int16_chunk = spec_dtype int16_spec \<and>
   example_registry astype_cfg = Inr astype_codec \<and>
   fst (V2Filters_encode_single example_registry (Some [astype_cfg]) int16_chunk int16_spec) =
     Inr (flat_array uint8 [[1], [2], [3]]) \<and>
   fst (V2Compressor_encode_single example_registry None (flat_array uint8 [[1], [2], [3]])
          int16_spec) = Inr [1, 2, 3] \<and>
   fst (V2Compressor_decode_single example_registry None (Some [1, 2, 3]) int16_spec) =
     Inl ValueError"
  by (simp add: stage_defs numpy_defs example_defs)

text \<open>
  The round trip where the filters keep the element type. For every well-formed chunk
  that has the shape and dtype of its specification (item size not zero, no objects), every list of
  filters that resolve, keep the element type and invert their forward transform on flat
  arrays, and every compressor that is absent or resolves and whose inverse returns the
  bytes its forward transform was given: \<^verbatim>\<open>V2Filters.encode_single\<close> returns an
  array, \<^verbatim>\<open>V2Compressor.encode_single\<close> of it returns bytes,
  \<^verbatim>\<open>V2Compressor.decode_single\<close> of those bytes returns that array again, and
  \<^verbatim>\<open>V2Filters.decode_single\<close> of it returns an array with the dtype, the shape
  and the elements of the chunk, all with the same specification.
\<close>

theorem pipeline_roundtrip:
  assumes wf: "wf_array chunk"
    and conf: "shape chunk = spec_shape s" "dtype chunk = spec_dtype s"
    and pos: "0 < itemsize (spec_dtype s)" and obj: "\<not> hasobject (spec_dtype s)"
    and filters: "\<forall>f \<in> set fs. \<exists>c. reg f = Inr c \<and> filter_ok (spec_dtype s) c"
    and comp: "\<forall>cfg. compressor = Some cfg \<longrightarrow> (\<exists>c. reg cfg = Inr c \<and> compressor_ok c)"
  shows "\<exists>a b r. fst (V2Filters_encode_single reg (Some fs) chunk s) = Inr a \<and>
                 fst (V2Compressor_encode_single reg compressor a s) = Inr b \<and>
                 fst (V2Compressor_decode_single reg compressor (Some b) s) = Inr (Some a) \<and>
                 fst (V2Filters_decode_single reg (Some fs) a s) = Inr r \<and>
                 dtype r = dtype chunk \<and> shape r = shape chunk \<and> elems r = elems chunk"
proof -
  let ?x = "ravel chunk (spec_order s)"
  have fx: "flat ?x" using wf by (rule flat_ravel)
  have dx: "dtype ?x = spec_dtype s" using conf by simp
  from chain_roundtrip [OF fx dx filters]
  obtain y where y: "fst (encode_loop reg fs ?x) = Inr y" "flat y" "dtype y = spec_dtype s"
    "fst (decode_loop reg (rev fs) y) = Inr ?x"
    by blast
  from compress_roundtrip [OF y(2,3) pos obj comp]
  obtain b where b: "fst (V2Compressor_encode_single reg compressor y s) = Inr b"
    "fst (V2Compressor_decode_single reg compressor (Some b) s) = Inr (Some y)"
    by blast
  from reshape_ravel [OF wf, of "spec_order s"]
  obtain r where r: "(if shape ?x \<noteq> shape chunk then reshape ?x (shape chunk) (spec_order s)
      else Inr ?x) = Inr r" "dtype r = dtype chunk" "shape r = shape chunk"
    "elems r = elems chunk"
    by blast
  have enc: "fst (V2Filters_encode_single reg (Some fs) chunk s) = Inr y"
    using y(1) by (simp add: V2Filters_encode_single_def)
  have "fst (decode_filters reg (Some fs) y) = Inr ?x"
    using y(4) by (simp add: decode_filters_def)
  moreover from r(1) have "(if shape ?x \<noteq> spec_shape s
      then reshape ?x (spec_shape s) (spec_order s) else Inr ?x) = Inr r"
    unfolding conf(1) .
  ultimately have "fst (V2Filters_decode_single reg (Some fs) y s) = Inr r"
    by (simp only: decode_filters_fst)
  with enc b r(2,3,4) show ?thesis by blast
qed

text \<open>
  That round trip on a 2 by 3 \<^verbatim>\<open>int8\<close> chunk in column-major order, with the
  filters add-one and negate and the framed compressor.
\<close>

theorem pipeline_roundtrip_witness:
  "wf_array int8_chunk \<and> shape int8_chunk = spec_shape int8_spec \<and>
   dtype int8_chunk = spec_dtype int8_spec \<and> 0 < itemsize (spec_dtype int8_spec) \<and>
   \<not> hasobject (spec_dtype int8_spec) \<and>
   (\<exists>c. example_registry add1_cfg = Inr c \<and> filter_ok (spec_dtype int8_spec) c) \<and>
   (\<exists>c. example_registry negate_cfg = Inr c \<and> filter_ok (spec_dtype int8_spec) c) \<and>
   (\<exists>c. example_registry framed_cfg = Inr c \<and> compressor_ok c) \<and>
   fst (V2Filters_encode_single example_registry (Some [add1_cfg, negate_cfg]) int8_chunk
          int8_spec) = Inr encoded_int8 \<and>
   fst (V2Compressor_encode_single example_registry (Some framed_cfg) encoded_int8 int8_spec) =
     Inr [0x5A, 0xFE, 0xFB, 0xFD, 0xFA, 0xFC, 0xF9] \<and>
   (\<exists>a b r.
      fst (V2Filters_encode_single example_registry (Some [add1_cfg, negate_cfg]) int8_chunk
             int8_spec) = Inr a \<and>
      fst (V2Compressor_encode_single example_registry (Some framed_cfg) a int8_spec) = Inr b \<and>
      fst (V2Compressor_decode_single example_registry (Some framed_cfg) (Some b) int8_spec) =
        Inr (Some a) \<and>
      fst (V2Filters_decode_single example_registry (Some [add1_cfg, negate_cfg]) a int8_spec) =
        Inr r \<and>
      dtype r = dtype int8_chunk \<and> shape r = shape int8_chunk \<and>
      elems r = elems int8_chunk)"
proof -
  have wf: "wf_array int8_chunk" by (simp add: numpy_defs example_defs)
  have conf: "shape int8_chunk = spec_shape int8_spec" "dtype int8_chunk = spec_dtype int8_spec"
    by (simp_all add: example_defs)
  have pos: "0 < itemsize (spec_dtype int8_spec)" by (simp add: example_defs)
  have obj: "\<not> hasobject (spec_dtype int8_spec)" by (simp add: example_defs hasobject_def)
  have fs: "\<forall>f \<in> set [add1_cfg, negate_cfg].
      \<exists>c. example_registry f = Inr c \<and> filter_ok (spec_dtype int8_spec) c"
    by (simp add: example_registry_def add1_cfg_def negate_cfg_def add1_filter_ok
        negate_filter_ok)
  have c: "\<exists>c. example_registry framed_cfg = Inr c \<and> compressor_ok c"
    by (simp add: example_registry_def add1_cfg_def negate_cfg_def astype_cfg_def
        framed_cfg_def framed_compressor_ok)
  then have c': "\<forall>cfg. Some framed_cfg = Some cfg \<longrightarrow>
      (\<exists>c. example_registry cfg = Inr c \<and> compressor_ok c)"
    by simp
  from fs have f1: "\<exists>c. example_registry add1_cfg = Inr c \<and>
      filter_ok (spec_dtype int8_spec) c"
    and f2: "\<exists>c. example_registry negate_cfg = Inr c \<and> filter_ok (spec_dtype int8_spec) c"
    by simp_all
  have e1: "fst (V2Filters_encode_single example_registry (Some [add1_cfg, negate_cfg])
      int8_chunk int8_spec) = Inr encoded_int8"
    by (simp add: stage_defs numpy_defs example_defs)
  have e2: "fst (V2Compressor_encode_single example_registry (Some framed_cfg) encoded_int8
      int8_spec) = Inr [0x5A, 0xFE, 0xFB, 0xFD, 0xFA, 0xFC, 0xF9]"
    by (simp add: stage_defs numpy_defs example_defs)
  from pipeline_roundtrip [OF wf conf pos obj fs c'] wf conf pos obj f1 f2 c e1 e2
  show ?thesis by blast
qed

text \<open>
  C2. \<^verbatim>\<open>V2Filters.encode_single\<close> calls the forward transforms of the filters in
  list order, and \<^verbatim>\<open>V2Filters.decode_single\<close> calls the inverse transforms in the
  reversed order: whatever the outcome, the calls made are an initial part of the list
  (resp. of the reversed list); when the stage returns, they are the whole list, the
  first call is on the ravelled chunk (resp. on the array given), and every later call
  is on the result of the call before. In the sequence of the two stages the compressor's
  calls come after all the filter calls on encode, and before them on decode.
\<close>

theorem filter_call_order:
  "map fst (encode_calls (snd (V2Filters_encode_single reg (Some fs) chunk s))) =
     take (length (encode_calls (snd (V2Filters_encode_single reg (Some fs) chunk s)))) fs \<and>
   map fst (decode_calls (snd (V2Filters_decode_single reg (Some fs) a s))) =
     take (length (decode_calls (snd (V2Filters_decode_single reg (Some fs) a s)))) (rev fs) \<and>
   (\<forall>r t. V2Filters_encode_single reg (Some fs) chunk s = (Inr r, t) \<longrightarrow>
      map fst (encode_calls t) = fs \<and> decode_calls t = [] \<and>
      chained reg encode (ravel chunk (spec_order s)) (encode_calls t) r \<and>
      snd (encode_chunk reg (Some fs) compressor chunk s) =
        t @ snd (V2Compressor_encode_single reg compressor r s)) \<and>
   (\<forall>w t. decode_filters reg (Some fs) a = (Inr w, t) \<longrightarrow>
      snd (V2Filters_decode_single reg (Some fs) a s) = t \<and>
      map fst (decode_calls t) = rev fs \<and> encode_calls t = [] \<and>
      chained reg decode a (decode_calls t) w) \<and>
   (\<forall>t. V2Compressor_decode_single reg compressor (Some b) s = (Inr (Some a), t) \<longrightarrow>
      snd (decode_chunk reg (Some fs) compressor (Some b) s) =
        t @ snd (V2Filters_decode_single reg (Some fs) a s))"
proof (intro conjI allI impI)
  show "map fst (encode_calls (snd (V2Filters_encode_single reg (Some fs) chunk s))) =
     take (length (encode_calls (snd (V2Filters_encode_single reg (Some fs) chunk s)))) fs"
    by (simp add: V2Filters_encode_single_def encode_loop_prefix)
  show "map fst (decode_calls (snd (V2Filters_decode_single reg (Some fs) a s))) =
     take (length (decode_calls (snd (V2Filters_decode_single reg (Some fs) a s)))) (rev fs)"
    by (simp add: snd_decode_single decode_filters_def decode_loop_prefix)
next
  fix r t
  assume enc: "V2Filters_encode_single reg (Some fs) chunk s = (Inr r, t)"
  then have loop: "encode_loop reg fs (ravel chunk (spec_order s)) = (Inr r, t)"
    by (simp add: V2Filters_encode_single_def)
  from encode_loop_success [OF loop]
  show "map fst (encode_calls t) = fs" "decode_calls t = []"
    "chained reg encode (ravel chunk (spec_order s)) (encode_calls t) r"
    by simp_all
  from enc show "snd (encode_chunk reg (Some fs) compressor chunk s) =
        t @ snd (V2Compressor_encode_single reg compressor r s)"
    by (simp add: encode_chunk_def bind_r_Inr)
next
  fix w t
  assume dec: "decode_filters reg (Some fs) a = (Inr w, t)"
  then have loop: "decode_loop reg (rev fs) a = (Inr w, t)"
    by (simp add: decode_filters_def)
  from dec show "snd (V2Filters_decode_single reg (Some fs) a s) = t"
    by (simp add: snd_decode_single)
  from decode_loop_success [OF loop]
  show "map fst (decode_calls t) = rev fs" "encode_calls t = []"
    "chained reg decode a (decode_calls t) w"
    by simp_all
next
  fix t
  assume "V2Compressor_decode_single reg compressor (Some b) s = (Inr (Some a), t)"
  then show "snd (decode_chunk reg (Some fs) compressor (Some b) s) =
        t @ snd (V2Filters_decode_single reg (Some fs) a s)"
    by (simp add: decode_chunk_def bind_r_def pure_r_def split: sum.splits prod.splits)
qed

text \<open>
  C2 on the filters add-one, then negate: encode calls add-one first, decode calls the
  inverse of negate first.
\<close>

theorem filter_call_order_witness:
  "V2Filters_encode_single example_registry (Some [add1_cfg, negate_cfg]) int8_chunk int8_spec =
     (Inr encoded_int8,
      snd (V2Filters_encode_single example_registry (Some [add1_cfg, negate_cfg]) int8_chunk
             int8_spec)) \<and>
   map fst (encode_calls
     (snd (V2Filters_encode_single example_registry (Some [add1_cfg, negate_cfg]) int8_chunk
             int8_spec))) = [add1_cfg, negate_cfg] \<and>
   chained example_registry encode (ravel int8_chunk Order_F)
     (encode_calls
        (snd (V2Filters_encode_single example_registry (Some [add1_cfg, negate_cfg]) int8_chunk
                int8_spec)))
     encoded_int8 \<and>
   decode_filters example_registry (Some [add1_cfg, negate_cfg]) encoded_int8 =
     (Inr (ravel int8_chunk Order_F),
      snd (decode_filters example_registry (Some [add1_cfg, negate_cfg]) encoded_int8)) \<and>
   map fst (decode_calls
     (snd (decode_filters example_registry (Some [add1_cfg, negate_cfg]) encoded_int8))) =
     [negate_cfg, add1_cfg] \<and>
   chained example_registry decode encoded_int8
     (decode_calls
        (snd (decode_filters example_registry (Some [add1_cfg, negate_cfg]) encoded_int8)))
     (ravel int8_chunk Order_F)"
proof -
  let ?X = "V2Filters_encode_single example_registry (Some [add1_cfg, negate_cfg]) int8_chunk
    int8_spec"
  let ?D = "decode_filters example_registry (Some [add1_cfg, negate_cfg]) encoded_int8"
  have "fst ?X = Inr encoded_int8"
    by (simp add: stage_defs numpy_defs example_defs)
  then have e: "?X = (Inr encoded_int8, snd ?X)" by (intro prod_eqI) simp_all
  have "fst ?D = Inr (ravel int8_chunk Order_F)"
    by (simp add: stage_defs numpy_defs example_defs)
  then have d: "?D = (Inr (ravel int8_chunk Order_F), snd ?D)" by (intro prod_eqI) simp_all
  have o: "spec_order int8_spec = Order_F" by (simp add: int8_spec_def)
  note th = filter_call_order [of example_registry "[add1_cfg, negate_cfg]" int8_chunk int8_spec
      encoded_int8]
  from th e have "map fst (encode_calls (snd ?X)) = [add1_cfg, negate_cfg] \<and>
      chained example_registry encode (ravel int8_chunk (spec_order int8_spec))
        (encode_calls (snd ?X)) encoded_int8"
    by blast
  moreover from th d have "map fst (decode_calls (snd ?D)) = rev [add1_cfg, negate_cfg] \<and>
      chained example_registry decode encoded_int8 (decode_calls (snd ?D))
        (ravel int8_chunk Order_F)"
    by blast
  ultimately show ?thesis using e d o by simp
qed

text \<open>
  C3. \<^verbatim>\<open>V2Compressor.decode_single\<close> given the sentinel for an absent chunk returns
  the sentinel, for every registry, compressor configuration and specification, and
  records no call: the compressor is neither resolved nor invoked.
\<close>

theorem decode_single_sentinel:
  "V2Compressor_decode_single reg compressor None chunk_spec = (Inr None, [])"
  by (simp add: V2Compressor_decode_single_def pure_r_def)

text \<open>
  C4. In \<^verbatim>\<open>V2Compressor.decode_single\<close>, when the decompressed (or raw) array has
  the dtype of the specification it is returned as it is; when its dtype differs, the
  result is \<^verbatim>\<open>view\<close> of it under the dtype of the specification. That is an array
  of that dtype with exactly the same bytes in the same order, and then neither dtype
  has objects; or it is an error, which is \<^verbatim>\<open>TypeError\<close> when either dtype has
  objects and \<^verbatim>\<open>ValueError\<close> otherwise. No byte is converted. (Arrays are values
  here: that the result shares the memory of its argument is numpy's \<^verbatim>\<open>view\<close>, and
  is not expressed.)
\<close>

theorem dtype_reinterpretation:
  "\<forall>d t. decompress reg compressor b = (Inr d, t) \<longrightarrow>
     (dtype d = spec_dtype s \<longrightarrow>
        V2Compressor_decode_single reg compressor (Some b) s = (Inr (Some d), t)) \<and>
     (dtype d \<noteq> spec_dtype s \<longrightarrow>
        snd (V2Compressor_decode_single reg compressor (Some b) s) = t \<and>
        (case fst (V2Compressor_decode_single reg compressor (Some b) s) of
           Inl e \<Rightarrow>
             view d (spec_dtype s) = Inl e \<and>
             e = (if hasobject (dtype d) \<or> hasobject (spec_dtype s) then TypeError
                  else ValueError)
         | Inr None \<Rightarrow> False
         | Inr (Some r) \<Rightarrow>
             view d (spec_dtype s) = Inr r \<and> dtype r = spec_dtype s \<and>
             concat (elems r) = concat (elems d) \<and>
             \<not> hasobject (dtype d) \<and> \<not> hasobject (spec_dtype s)))"
proof (intro allI impI conjI)
  fix d t
  assume dec: "decompress reg compressor b = (Inr d, t)"
  note eq = decode_single_after_decompress [OF dec, of s]
  show "V2Compressor_decode_single reg compressor (Some b) s = (Inr (Some d), t)"
    if "dtype d = spec_dtype s"
    using eq that by simp
  show "snd (V2Compressor_decode_single reg compressor (Some b) s) = t"
    if "dtype d \<noteq> spec_dtype s"
    using eq by simp
  show "case fst (V2Compressor_decode_single reg compressor (Some b) s) of
           Inl e \<Rightarrow>
             view d (spec_dtype s) = Inl e \<and>
             e = (if hasobject (dtype d) \<or> hasobject (spec_dtype s) then TypeError
                  else ValueError)
         | Inr None \<Rightarrow> False
         | Inr (Some r) \<Rightarrow>
             view d (spec_dtype s) = Inr r \<and> dtype r = spec_dtype s \<and>
             concat (elems r) = concat (elems d) \<and>
             \<not> hasobject (dtype d) \<and> \<not> hasobject (spec_dtype s)"
    if ne: "dtype d \<noteq> spec_dtype s"
  proof (cases "view d (spec_dtype s)")
    case (Inl e)
    from view_error [OF Inl] ne
    have "e = (if hasobject (dtype d) \<or> hasobject (spec_dtype s) then TypeError
               else ValueError)"
      by simp
    with eq ne Inl show ?thesis by simp
  next
    case (Inr r)
    have "\<not> hasobject (dtype d) \<and> \<not> hasobject (spec_dtype s)"
      using Inr ne view_object [of d "spec_dtype s"] by auto
    with eq ne Inr view_result [OF Inr] show ?thesis by simp
  qed
qed

text \<open>
  C4 on the eight bytes of the floats 1.0 and 2.0: the raw \<^verbatim>\<open>int8\<close> array becomes
  two \<^verbatim>\<open>float32\<close> items with the same bytes; under a specification whose dtype is
  \<^verbatim>\<open>object\<close> the same bytes give \<^verbatim>\<open>TypeError\<close>.
\<close>

theorem dtype_reinterpretation_witness:
  "decompress example_registry None float_pair_bytes =
     (Inr (as_array_like float_pair_bytes), []) \<and>
   dtype (as_array_like float_pair_bytes) \<noteq> spec_dtype float_pair_spec \<and>
   V2Compressor_decode_single example_registry None (Some float_pair_bytes) float_pair_spec =
     (Inr (Some \<lparr>dtype = float32, shape = [2], strides = [4],
                 elems = [[0, 0, 0x80, 0x3F], [0, 0, 0, 0x40]]\<rparr>), []) \<and>
   view (as_array_like float_pair_bytes) (spec_dtype float_pair_spec) =
     Inr \<lparr>dtype = float32, shape = [2], strides = [4],
          elems = [[0, 0, 0x80, 0x3F], [0, 0, 0, 0x40]]\<rparr> \<and>
   concat (elems \<lparr>dtype = float32, shape = [2], strides = [4],
                  elems = [[0, 0, 0x80, 0x3F], [0, 0, 0, 0x40]]\<rparr>) =
     concat (elems (as_array_like float_pair_bytes)) \<and>
   dtype (as_array_like float_pair_bytes) \<noteq> spec_dtype object_spec \<and>
   hasobject (spec_dtype object_spec) \<and>
   V2Compressor_decode_single example_registry None (Some float_pair_bytes) object_spec =
     (Inl TypeError, []) \<and>
   view (as_array_like float_pair_bytes) (spec_dtype object_spec) = Inl TypeError"
proof -
  have h: "decompress example_registry None float_pair_bytes =
     (Inr (as_array_like float_pair_bytes), [])"
    by (simp add: stage_defs ensure_ndarray_def)
  have n: "dtype (as_array_like float_pair_bytes) \<noteq> spec_dtype float_pair_spec"
    by (simp add: numpy_defs example_defs)
  have v: "V2Compressor_decode_single example_registry None (Some float_pair_bytes)
      float_pair_spec =
     (Inr (Some \<lparr>dtype = float32, shape = [2], strides = [4],
                 elems = [[0, 0, 0x80, 0x3F], [0, 0, 0, 0x40]]\<rparr>), [])"
    by (simp add: stage_defs numpy_defs example_defs)
  from dtype_reinterpretation [of example_registry None float_pair_bytes float_pair_spec] h n
  have "case fst (V2Compressor_decode_single example_registry None (Some float_pair_bytes)
           float_pair_spec) of
           Inl e \<Rightarrow>
             view (as_array_like float_pair_bytes) (spec_dtype float_pair_spec) = Inl e \<and>
             e = (if hasobject (dtype (as_array_like float_pair_bytes)) \<or>
                     hasobject (spec_dtype float_pair_spec) then TypeError else ValueError)
         | Inr None \<Rightarrow> False
         | Inr (Some r) \<Rightarrow>
             view (as_array_like float_pair_bytes) (spec_dtype float_pair_spec) = Inr r \<and>
             dtype r = spec_dtype float_pair_spec \<and>
             concat (elems r) = concat (elems (as_array_like float_pair_bytes)) \<and>
             \<not> hasobject (dtype (as_array_like float_pair_bytes)) \<and>
             \<not> hasobject (spec_dtype float_pair_spec)"
    by blast
  then have 1: "view (as_array_like float_pair_bytes) (spec_dtype float_pair_spec) =
     Inr \<lparr>dtype = float32, shape = [2], strides = [4],
          elems = [[0, 0, 0x80, 0x3F], [0, 0, 0, 0x40]]\<rparr> \<and>
   concat (elems \<lparr>dtype = float32, shape = [2], strides = [4],
                  elems = [[0, 0, 0x80, 0x3F], [0, 0, 0, 0x40]]\<rparr>) =
     concat (elems (as_array_like float_pair_bytes))"
    unfolding v fst_conv sum.case option.case by blast
  have no: "dtype (as_array_like float_pair_bytes) \<noteq> spec_dtype object_spec"
    "hasobject (spec_dtype object_spec)"
    by (simp_all add: numpy_defs example_defs)
  have vo: "V2Compressor_decode_single example_registry None (Some float_pair_bytes)
      object_spec = (Inl TypeError, [])"
    by (simp add: stage_defs numpy_defs example_defs)
  from dtype_reinterpretation [of example_registry None float_pair_bytes object_spec] h no(1)
  have "case fst (V2Compressor_decode_single example_registry None (Some float_pair_bytes)
           object_spec) of
           Inl e \<Rightarrow>
             view (as_array_like float_pair_bytes) (spec_dtype object_spec) = Inl e \<and>
             e = (if hasobject (dtype (as_array_like float_pair_bytes)) \<or>
                     hasobject (spec_dtype object_spec) then TypeError else ValueError)
         | Inr None \<Rightarrow> False
         | Inr (Some r) \<Rightarrow>
             view (as_array_like float_pair_bytes) (spec_dtype object_spec) = Inr r \<and>
             dtype r = spec_dtype object_spec \<and>
             concat (elems r) = concat (elems (as_array_like float_pair_bytes)) \<and>
             \<not> hasobject (dtype (as_array_like float_pair_bytes)) \<and>
             \<not> hasobject (spec_dtype object_spec)"
    by blast
  then have 2: "view (as_array_like float_pair_bytes) (spec_dtype object_spec) = Inl TypeError"
    unfolding vo fst_conv sum.case by blast
  from h n v 1 no vo 2 show ?thesis by blast
qed

text \<open>
  C5. In \<^verbatim>\<open>V2Filters.decode_single\<close>, once the inverse filters have returned the
  working array: if its shape is the shape of the specification it is returned
  unchanged; otherwise the result is its \<^verbatim>\<open>reshape\<close> to that shape in the order of
  the specification, which, when the sizes agree, has that shape, the same dtype, and
  the same elements when both are read in that order. With an empty filter list the
  working array is the input, and the same step is taken.
\<close>

theorem decode_single_reshape:
  "(\<forall>w t. decode_filters reg filters a = (Inr w, t) \<longrightarrow>
      (shape w = spec_shape s \<longrightarrow> V2Filters_decode_single reg filters a s = (Inr w, t)) \<and>
      (shape w \<noteq> spec_shape s \<longrightarrow>
         V2Filters_decode_single reg filters a s =
           (reshape w (spec_shape s) (spec_order s), t)) \<and>
      (shape w \<noteq> spec_shape s \<and> prod_list (spec_shape s) = arr_size w \<longrightarrow>
         (\<exists>r. V2Filters_decode_single reg filters a s = (Inr r, t) \<and>
              shape r = spec_shape s \<and> dtype r = dtype w \<and>
              ravel_elems (spec_order s) (shape r) (elems r) =
                ravel_elems (spec_order s) (shape w) (elems w)))) \<and>
   decode_filters reg (Some []) a = (Inr a, []) \<and>
   V2Filters_decode_single reg (Some []) a s =
     (if shape a \<noteq> spec_shape s then reshape a (spec_shape s) (spec_order s) else Inr a, [])"
proof (intro conjI allI impI)
  fix w t
  assume dec: "decode_filters reg filters a = (Inr w, t)"
  note eq = decode_single_after_filters [OF dec, of s]
  show "V2Filters_decode_single reg filters a s = (Inr w, t)" if "shape w = spec_shape s"
    using eq that by simp
  show "V2Filters_decode_single reg filters a s = (reshape w (spec_shape s) (spec_order s), t)"
    if "shape w \<noteq> spec_shape s"
    using eq that by simp
  show "\<exists>r. V2Filters_decode_single reg filters a s = (Inr r, t) \<and>
              shape r = spec_shape s \<and> dtype r = dtype w \<and>
              ravel_elems (spec_order s) (shape r) (elems r) =
                ravel_elems (spec_order s) (shape w) (elems w)"
    if "shape w \<noteq> spec_shape s \<and> prod_list (spec_shape s) = arr_size w"
  proof -
    from that reshape_result [of "spec_shape s" w "spec_order s"]
    obtain r where "reshape w (spec_shape s) (spec_order s) = Inr r" "shape r = spec_shape s"
      "dtype r = dtype w"
      "ravel_elems (spec_order s) (shape r) (elems r) =
         ravel_elems (spec_order s) (shape w) (elems w)"
      by blast
    with eq that show ?thesis by simp
  qed
next
  show e: "decode_filters reg (Some []) a = (Inr a, [])"
    by (simp add: decode_filters_def pure_r_def)
  show "V2Filters_decode_single reg (Some []) a s =
     (if shape a \<noteq> spec_shape s then reshape a (spec_shape s) (spec_order s) else Inr a, [])"
    by (rule decode_single_after_filters [OF e])
qed

text \<open>
  C5 on a flat array of six items and the specification of a 2 by 3 column-major chunk.
\<close>

theorem decode_single_reshape_witness:
  "decode_filters example_registry (Some []) encoded_int8 = (Inr encoded_int8, []) \<and>
   shape encoded_int8 \<noteq> spec_shape int8_spec \<and>
   prod_list (spec_shape int8_spec) = arr_size encoded_int8 \<and>
   V2Filters_decode_single example_registry (Some []) encoded_int8 int8_spec =
     (reshape encoded_int8 [2, 3] Order_F, []) \<and>
   reshape encoded_int8 [2, 3] Order_F =
     Inr \<lparr>dtype = int8, shape = [2, 3], strides = [1, 2],
          elems = [[0xFE], [0xFD], [0xFC], [0xFB], [0xFA], [0xF9]]\<rparr>"
proof -
  have h: "decode_filters example_registry (Some []) encoded_int8 = (Inr encoded_int8, [])"
    by (simp add: stage_defs)
  have n: "shape encoded_int8 \<noteq> spec_shape int8_spec"
    "prod_list (spec_shape int8_spec) = arr_size encoded_int8"
    "spec_shape int8_spec = [2, 3]" "spec_order int8_spec = Order_F"
    by (simp_all add: example_defs arr_size_def)
  have r: "reshape encoded_int8 [2, 3] Order_F =
     Inr \<lparr>dtype = int8, shape = [2, 3], strides = [1, 2],
          elems = [[0xFE], [0xFD], [0xFC], [0xFB], [0xFA], [0xF9]]\<rparr>"
    by (simp add: numpy_defs example_defs)
  from decode_single_reshape [of example_registry "Some []" encoded_int8 int8_spec] h n(1)
  have "V2Filters_decode_single example_registry (Some []) encoded_int8 int8_spec =
     (reshape encoded_int8 (spec_shape int8_spec) (spec_order int8_spec), [])"
    by blast
  with h n r show ?thesis by simp
qed

text \<open>
  C6. For an array that is neither row-major nor column-major contiguous,
  \<^verbatim>\<open>V2Compressor.encode_single\<close> returns what it returns for the contiguous copy
  \<^verbatim>\<open>copy(order='A')\<close> of the array, which is row-major contiguous with the same
  dtype, shape and elements. Without a compressor, and for a dtype without objects, it
  returns the bytes of the elements in row-major order; with a compressor that resolves
  and whose forward transform accepts the contiguous copy and returns an array without
  objects, it returns that transform's bytes.
\<close>

theorem encode_single_noncontiguous:
  assumes nc: "\<not> c_contiguous a" "\<not> f_contiguous a"
  shows "V2Compressor_encode_single reg compressor a s =
           V2Compressor_encode_single reg compressor (copy_A a) s \<and>
         (c_contiguous (copy_A a) \<and> dtype (copy_A a) = dtype a \<and>
          shape (copy_A a) = shape a \<and> elems (copy_A a) = elems a) \<and>
         (\<not> hasobject (dtype a) \<longrightarrow>
            V2Compressor_encode_single reg None a s = (Inr (concat (elems a)), [])) \<and>
         (\<forall>cfg c y. compressor = Some cfg \<and> reg cfg = Inr c \<and> encode c (copy_A a) = Inr y \<and>
                    \<not> hasobject (dtype y) \<longrightarrow>
            V2Compressor_encode_single reg compressor a s =
              (Inr (tobytes_A y), [GetCodec cfg, Encode cfg (copy_A a)]))"
proof -
  from nc have nf: "\<not> is_fortran a" by (simp add: is_fortran_def)
  then have cc: "c_contiguous (copy_A a)" by (rule copy_A_c_contiguous)
  then have nfc: "\<not> is_fortran (copy_A a)" by (simp add: is_fortran_def)
  have tb: "tobytes_A a = concat (elems a)" "tobytes_A (copy_A a) = concat (elems a)"
    using nf nfc by (simp_all add: tobytes_A_def ravel_elems_def)
  have 1: "V2Compressor_encode_single reg compressor a s =
           V2Compressor_encode_single reg compressor (copy_A a) s"
    using nc cc tb by (cases compressor) (simp_all add: V2Compressor_encode_single_def ensure_bytes_def)
  have 3: "V2Compressor_encode_single reg None a s = (Inr (concat (elems a)), [])"
    if "\<not> hasobject (dtype a)"
    using tb that
    by (simp add: V2Compressor_encode_single_def ensure_bytes_def from_bytes_def pure_r_def
        lift_r_def bind_r_def)
  have 4: "V2Compressor_encode_single reg compressor a s =
              (Inr (tobytes_A y), [GetCodec cfg, Encode cfg (copy_A a)])"
    if "compressor = Some cfg \<and> reg cfg = Inr c \<and> encode c (copy_A a) = Inr y \<and>
        \<not> hasobject (dtype y)" for cfg c y
    using that nc
    by (simp add: V2Compressor_encode_single_def ensure_bytes_def from_bytes_def pure_r_def
        bind_r_def get_codec_def to_thread_encode_def lift_r_def)
  then have "\<forall>cfg c y. compressor = Some cfg \<and> reg cfg = Inr c \<and>
      encode c (copy_A a) = Inr y \<and> \<not> hasobject (dtype y) \<longrightarrow>
        V2Compressor_encode_single reg compressor a s =
          (Inr (tobytes_A y), [GetCodec cfg, Encode cfg (copy_A a)])"
    by blast
  with 1 cc 3 show ?thesis by simp
qed

text \<open>
  C6 on every second column of a 2 by 4 \<^verbatim>\<open>int8\<close> array (strides 4 and 2).
\<close>

theorem encode_single_noncontiguous_witness:
  "\<not> c_contiguous strided_chunk \<and> \<not> f_contiguous strided_chunk \<and>
   \<not> hasobject (dtype strided_chunk) \<and>
   copy_A strided_chunk = strided_chunk\<lparr>strides := [2, 1]\<rparr> \<and>
   V2Compressor_encode_single example_registry (Some framed_cfg) strided_chunk int8_spec =
     V2Compressor_encode_single example_registry (Some framed_cfg) (copy_A strided_chunk)
       int8_spec \<and>
   V2Compressor_encode_single example_registry None strided_chunk int8_spec =
     (Inr [1, 3, 5, 7], []) \<and>
   V2Compressor_encode_single example_registry (Some framed_cfg) strided_chunk int8_spec =
     (Inr [0x5A, 1, 3, 5, 7], [GetCodec framed_cfg, Encode framed_cfg (copy_A strided_chunk)])"
proof -
  have nc: "\<not> c_contiguous strided_chunk" "\<not> f_contiguous strided_chunk"
    by (simp_all add: numpy_defs example_defs)
  have cp: "copy_A strided_chunk = strided_chunk\<lparr>strides := [2, 1]\<rparr>"
    by (simp add: numpy_defs example_defs)
  have e: "elems strided_chunk = [[1], [3], [5], [7]]" by (simp add: example_defs)
  have obj: "\<not> hasobject (dtype strided_chunk)"
    "\<not> hasobject (dtype (flat_array uint8 [[0x5A], [1], [3], [5], [7]]))"
    by (simp_all add: numpy_defs example_defs)
  have r: "example_registry framed_cfg = Inr framed_codec"
    by (simp add: example_defs)
  have y: "encode framed_codec (copy_A strided_chunk) =
      Inr (flat_array uint8 [[0x5A], [1], [3], [5], [7]])"
    by (simp add: numpy_defs example_defs)
  have t: "tobytes_A (flat_array uint8 [[0x5A], [1], [3], [5], [7]]) = [0x5A, 1, 3, 5, 7]"
    by (simp add: numpy_defs example_defs)
  note th = encode_single_noncontiguous [OF nc, of example_registry "Some framed_cfg"
      int8_spec]
  from th have 1: "V2Compressor_encode_single example_registry (Some framed_cfg) strided_chunk
      int8_spec =
     V2Compressor_encode_single example_registry (Some framed_cfg) (copy_A strided_chunk)
       int8_spec"
    by blast
  from th obj(1) have "V2Compressor_encode_single example_registry None strided_chunk
      int8_spec = (Inr (concat (elems strided_chunk)), [])"
    by blast
  then have 2: "V2Compressor_encode_single example_registry None strided_chunk int8_spec =
     (Inr [1, 3, 5, 7], [])"
    unfolding e by simp
  from th r y obj(2) have "V2Compressor_encode_single example_registry (Some framed_cfg)
      strided_chunk int8_spec =
     (Inr (tobytes_A (flat_array uint8 [[0x5A], [1], [3], [5], [7]])),
      [GetCodec framed_cfg, Encode framed_cfg (copy_A strided_chunk)])"
    by blast
  then have 3: "V2Compressor_encode_single example_registry (Some framed_cfg) strided_chunk
      int8_spec =
     (Inr [0x5A, 1, 3, 5, 7], [GetCodec framed_cfg, Encode framed_cfg (copy_A strided_chunk)])"
    unfolding t .
  from nc obj(1) cp 1 2 3 show ?thesis by blast
qed

text \<open>
  C7. With an empty filter list and no compressor, for a well-formed chunk that has the
  shape and dtype of its specification (item size not zero, no objects): the filter
  stage returns
  the ravelled chunk and the compressor stage returns the bytes of its elements in the
  order of the specification, with no call made; decoding those bytes, the compressor
  stage returns the ravelled chunk and the filter stage returns, with no call, an array
  with the dtype, shape and elements of the chunk.
\<close>

theorem passthrough:
  assumes wf: "wf_array chunk"
    and conf: "shape chunk = spec_shape s" "dtype chunk = spec_dtype s"
    and pos: "0 < itemsize (spec_dtype s)" and obj: "\<not> hasobject (spec_dtype s)"
  shows "V2Filters_encode_single reg (Some []) chunk s =
           (Inr (ravel chunk (spec_order s)), []) \<and>
         V2Compressor_encode_single reg None (ravel chunk (spec_order s)) s =
           (Inr (concat (ravel_elems (spec_order s) (shape chunk) (elems chunk))), []) \<and>
         V2Compressor_decode_single reg None
             (Some (concat (ravel_elems (spec_order s) (shape chunk) (elems chunk)))) s =
           (Inr (Some (ravel chunk (spec_order s))), []) \<and>
         (\<exists>r. V2Filters_decode_single reg (Some []) (ravel chunk (spec_order s)) s =
                 (Inr r, []) \<and>
               dtype r = dtype chunk \<and> shape r = shape chunk \<and> elems r = elems chunk)"
proof -
  let ?x = "ravel chunk (spec_order s)"
  have fx: "flat ?x" using wf by (rule flat_ravel)
  have dx: "dtype ?x = spec_dtype s" using conf by simp
  have ex: "elems ?x = ravel_elems (spec_order s) (shape chunk) (elems chunk)"
    by (simp add: ravel_def)
  have 1: "V2Filters_encode_single reg (Some []) chunk s = (Inr ?x, [])"
    by (simp add: V2Filters_encode_single_def pure_r_def)
  have 2: "V2Compressor_encode_single reg None ?x s = (Inr (concat (elems ?x)), [])"
    using fx dx obj
    by (simp add: V2Compressor_encode_single_def pure_r_def from_bytes_def ensure_bytes_def
        flat_tobytes lift_r_def bind_r_def)
  have 3: "V2Compressor_decode_single reg None (Some (concat (elems ?x))) s =
      (Inr (Some ?x), [])"
    using fx dx pos obj by (rule decode_raw)
  from reshape_ravel [OF wf, of "spec_order s"]
  obtain r where r: "(if shape ?x \<noteq> shape chunk then reshape ?x (shape chunk) (spec_order s)
      else Inr ?x) = Inr r" "dtype r = dtype chunk" "shape r = shape chunk"
    "elems r = elems chunk"
    by blast
  have e: "decode_filters reg (Some []) ?x = (Inr ?x, [])"
    by (simp add: decode_filters_def pure_r_def)
  from r(1) have "(if shape ?x \<noteq> spec_shape s
      then reshape ?x (spec_shape s) (spec_order s) else Inr ?x) = Inr r"
    unfolding conf(1) .
  then have "V2Filters_decode_single reg (Some []) ?x s = (Inr r, [])"
    by (simp only: decode_single_after_filters [OF e])
  with r(2,3,4) have 4: "\<exists>r. V2Filters_decode_single reg (Some []) ?x s = (Inr r, []) \<and>
      dtype r = dtype chunk \<and> shape r = shape chunk \<and> elems r = elems chunk"
    by blast
  from 1 2 3 4 show ?thesis unfolding ex by blast
qed

text \<open>
  C7 on the 4 by 4 row-major array of the \<^verbatim>\<open>float32\<close> values 0.0 to 15.0 (each
  element is its four little-endian IEEE bytes): encode returns the 64 bytes in
  row-major order, and decode of them returns the array itself.
\<close>

theorem passthrough_witness:
  "wf_array float_chunk \<and> shape float_chunk = spec_shape float_spec \<and>
   dtype float_chunk = spec_dtype float_spec \<and> 0 < itemsize (spec_dtype float_spec) \<and>
   \<not> hasobject (spec_dtype float_spec) \<and>
   V2Filters_encode_single example_registry (Some []) float_chunk float_spec =
     (Inr (ravel float_chunk Order_C), []) \<and>
   V2Compressor_encode_single example_registry None (ravel float_chunk Order_C) float_spec =
     (Inr float_bytes, []) \<and>
   length float_bytes = 64 \<and>
   V2Compressor_decode_single example_registry None (Some float_bytes) float_spec =
     (Inr (Some (ravel float_chunk Order_C)), []) \<and>
   V2Filters_decode_single example_registry (Some []) (ravel float_chunk Order_C) float_spec =
     (Inr float_chunk, [])"
proof -
  have wf: "wf_array float_chunk" by (simp add: numpy_defs example_defs)
  have conf: "shape float_chunk = spec_shape float_spec"
    "dtype float_chunk = spec_dtype float_spec"
    by (simp_all add: example_defs)
  have pos: "0 < itemsize (spec_dtype float_spec)" by (simp add: example_defs)
  have obj: "\<not> hasobject (spec_dtype float_spec)" by (simp add: example_defs hasobject_def)
  have o: "spec_order float_spec = Order_C" by (simp add: example_defs)
  have b: "concat (ravel_elems Order_C (shape float_chunk) (elems float_chunk))
      = float_bytes" "length float_bytes = 64"
    by (simp_all add: numpy_defs example_defs)
  have d: "V2Filters_decode_single example_registry (Some []) (ravel float_chunk Order_C)
      float_spec = (Inr float_chunk, [])"
    by (simp add: stage_defs numpy_defs example_defs)
  note th = passthrough [OF wf conf pos obj, of example_registry, unfolded o b(1)]
  from th wf conf pos obj b(2) d show ?thesis by blast
qed



text \<open>
  C9. \<^verbatim>\<open>compute_encoded_size\<close> of either stage raises \<^verbatim>\<open>NotImplementedError\<close> for
  every input byte length and specification; it returns no value.
\<close>

theorem compute_encoded_size_unsupported:
  "V2Compressor_compute_encoded_size compressor n chunk_spec = Inl NotImplementedError \<and>
   V2Filters_compute_encoded_size filters n chunk_spec = Inl NotImplementedError"
  by (simp add: V2Compressor_compute_encoded_size_def V2Filters_compute_encoded_size_def)

text \<open>
  C10. With a filter list that is \<^verbatim>\<open>None\<close>, \<^verbatim>\<open>V2Filters.decode_single\<close> does
  what it does with the empty list: it records no call, and what it returns has the
  shape of the specification (it returns whenever the sizes agree). Only decode has the
  guard: \<^verbatim>\<open>V2Filters.encode_single\<close> iterates the list and raises
  \<^verbatim>\<open>TypeError\<close>.
\<close>

theorem decode_single_none_filters:
  "V2Filters_decode_single reg None a s = V2Filters_decode_single reg (Some []) a s \<and>
   snd (V2Filters_decode_single reg None a s) = [] \<and>
   (\<forall>r. fst (V2Filters_decode_single reg None a s) = Inr r \<longrightarrow> shape r = spec_shape s) \<and>
   (prod_list (spec_shape s) = arr_size a \<longrightarrow>
      (\<exists>r. fst (V2Filters_decode_single reg None a s) = Inr r)) \<and>
   V2Filters_encode_single reg None a s = (Inl TypeError, [])"
proof -
  have n: "decode_filters reg None a = (Inr a, [])"
    by (simp add: decode_filters_def pure_r_def)
  have e: "decode_filters reg (Some []) a = (Inr a, [])"
    by (simp add: decode_filters_def pure_r_def)
  note dn = decode_single_after_filters [OF n, of s]
  note de = decode_single_after_filters [OF e, of s]
  have 1: "V2Filters_decode_single reg None a s = V2Filters_decode_single reg (Some []) a s"
    by (simp only: dn de)
  have 2: "snd (V2Filters_decode_single reg None a s) = []"
    by (simp add: dn)
  have 3: "\<forall>r. fst (V2Filters_decode_single reg None a s) = Inr r \<longrightarrow> shape r = spec_shape s"
    by (auto simp: dn reshape_def split: if_splits)
  have 4: "prod_list (spec_shape s) = arr_size a \<longrightarrow>
      (\<exists>r. fst (V2Filters_decode_single reg None a s) = Inr r)"
    by (auto simp: dn reshape_def)
  have 5: "V2Filters_encode_single reg None a s = (Inl TypeError, [])"
    by (simp add: V2Filters_encode_single_def raise_r_def)
  from 1 2 3 4 5 show ?thesis by blast
qed

text \<open>
  C10 on a flat array of six items and the specification of a 2 by 3 chunk.
\<close>

theorem decode_single_none_filters_witness:
  "prod_list (spec_shape int8_spec) = arr_size encoded_int8 \<and>
   fst (V2Filters_decode_single example_registry None encoded_int8 int8_spec) =
     Inr \<lparr>dtype = int8, shape = [2, 3], strides = [1, 2],
          elems = [[0xFE], [0xFD], [0xFC], [0xFB], [0xFA], [0xF9]]\<rparr> \<and>
   shape \<lparr>dtype = int8, shape = [2, 3], strides = [1, 2],
          elems = [[0xFE], [0xFD], [0xFC], [0xFB], [0xFA], [0xF9 :: byte]]\<rparr> =
     spec_shape int8_spec \<and>
   snd (V2Filters_decode_single example_registry None encoded_int8 int8_spec) = [] \<and>
   V2Filters_encode_single example_registry None encoded_int8 int8_spec = (Inl TypeError, [])"
proof -
  have p: "prod_list (spec_shape int8_spec) = arr_size encoded_int8"
    by (simp add: example_defs arr_size_def)
  have f: "fst (V2Filters_decode_single example_registry None encoded_int8 int8_spec) =
     Inr \<lparr>dtype = int8, shape = [2, 3], strides = [1, 2],
          elems = [[0xFE], [0xFD], [0xFC], [0xFB], [0xFA], [0xF9]]\<rparr>"
    by (simp add: stage_defs numpy_defs example_defs)
  note th = decode_single_none_filters [of example_registry encoded_int8 int8_spec]
  from th f have 3: "shape \<lparr>dtype = int8, shape = [2, 3], strides = [1, 2],
          elems = [[0xFE], [0xFD], [0xFC], [0xFB], [0xFA], [0xF9 :: byte]]\<rparr> =
     spec_shape int8_spec"
    by blast
  from th have 2: "snd (V2Filters_decode_single example_registry None encoded_int8 int8_spec)
      = []"
    and 5: "V2Filters_encode_single example_registry None encoded_int8 int8_spec =
      (Inl TypeError, [])"
    by blast+
  from p f 3 2 5 show ?thesis by blast
qed

end
